theory Spec2Isabelle
  imports Main "HOL-Library.Word"
begin

section \<open>Bytes, C strings and buffered line reading\<close>

text \<open>
  The program is \<^verbatim>\<open>builtin/am.c\<close>. A \<^verbatim>\<open>struct strbuf\<close> is a byte buffer with an explicit
  length: a \<^typ>\<open>string\<close>. A \<^verbatim>\<open>char *\<close> handed to a C library function is read up to the
  first NUL byte: \<open>cstr\<close>. An open \<^verbatim>\<open>FILE *\<close> is the list of bytes not yet consumed.
\<close>

abbreviation NUL :: char where "NUL \<equiv> CHR 0x00"
abbreviation LF :: char where "LF \<equiv> CHR 0x0A"
abbreviation CR :: char where "CR \<equiv> CHR 0x0D"
abbreviation TAB :: char where "TAB \<equiv> CHR 0x09"
abbreviation SPC :: char where "SPC \<equiv> CHR 0x20"
abbreviation SQ :: char where "SQ \<equiv> CHR 0x27"
abbreviation BSL :: char where "BSL \<equiv> CHR 0x5C"

definition cstr :: "string \<Rightarrow> string" where
  "cstr s = takeWhile (\<lambda>c. c \<noteq> NUL) s"

text \<open>
  Modelled from the spec: \<^verbatim>\<open>strbuf_getwholeline\<close> (strbuf.c) is not part of the source
  file. It reads up to and including the terminator, and reports EOF (here \<open>None\<close>) when
  nothing at all could be read.
\<close>

definition strbuf_getwholeline :: "string \<Rightarrow> (string \<times> string) option" where
  "strbuf_getwholeline fp =
     (if fp = [] then None
      else (case dropWhile (\<lambda>c. c \<noteq> LF) fp of
              [] \<Rightarrow> Some (fp, [])
            | _ # rest \<Rightarrow> Some (takeWhile (\<lambda>c. c \<noteq> LF) fp @ [LF], rest)))"

text \<open>
  Modelled from the spec: \<^verbatim>\<open>strbuf_getline\<close> (strbuf.c), the whole line without its
  terminator.
\<close>

definition strbuf_getline :: "string \<Rightarrow> (string \<times> string) option" where
  "strbuf_getline fp =
     (case strbuf_getwholeline fp of
        None \<Rightarrow> None
      | Some (sb, rest) \<Rightarrow>
          if sb \<noteq> [] \<and> last sb = LF then Some (butlast sb, rest) else Some (sb, rest))"

text \<open>\<^verbatim>\<open>strbuf_getline_crlf\<close>: both LF and CR LF end a line.\<close>

definition strbuf_getline_crlf :: "string \<Rightarrow> (string \<times> string) option" where
  "strbuf_getline_crlf fp =
     (case strbuf_getwholeline fp of
        None \<Rightarrow> None
      | Some (sb, rest) \<Rightarrow>
          if sb \<noteq> [] \<and> last sb = LF then
            (let sb1 = butlast sb in
             if sb1 \<noteq> [] \<and> last sb1 = CR then Some (butlast sb1, rest) else Some (sb1, rest))
          else Some (sb, rest))"

text \<open>
  Modelled from the spec: \<^verbatim>\<open>skip_prefix\<close> and \<^verbatim>\<open>starts_with\<close> (git-compat-util.h) compare
  C strings; \<open>skip_prefix\<close> returns what follows the prefix.
\<close>

fun skip_prefix :: "string \<Rightarrow> string \<Rightarrow> string option" where
  "skip_prefix s [] = Some s"
| "skip_prefix [] (p # ps) = None"
| "skip_prefix (c # cs) (p # ps) = (if c = p then skip_prefix cs ps else None)"

definition starts_with :: "string \<Rightarrow> string \<Rightarrow> bool" where
  "starts_with s p = (skip_prefix s p \<noteq> None)"

text \<open>\<^verbatim>\<open>linelen\<close>: the length of the first line of a C string.\<close>

definition linelen :: "string \<Rightarrow> nat" where
  "linelen m = length (takeWhile (\<lambda>c. c \<noteq> LF) (cstr m))"

section \<open>Shell single-quoting\<close>

text \<open>
  Modelled from the spec: \<^verbatim>\<open>sq_quote_buf\<close> (quote.c) is not part of the source file. The
  spec says: every embedded single quote becomes the four bytes quote, backslash, quote,
  quote; everything else is literal; the whole value is wrapped in single quotes.
\<close>

definition sq_escape :: "char \<Rightarrow> string" where
  "sq_escape c = (if c = SQ then [SQ, BSL, SQ, SQ] else [c])"

definition sq_quote_buf :: "string \<Rightarrow> string" where
  "sq_quote_buf s = SQ # concat (map sq_escape s) @ [SQ]"

text \<open>
  Modelled from the spec: \<^verbatim>\<open>sq_dequote\<close> (quote.c) is not part of the source file. The
  spec says the value must be syntactically one shell single-quoted string: no
  concatenation, no double quotes, no backslash escape other than the quote, backslash,
  quote, quote convention. \<open>sq_body\<close> reads what follows the opening quote; \<open>None\<close> is the
  NULL result.
\<close>

fun sq_body :: "string \<Rightarrow> string option" where
  "sq_body [] = None"
| "sq_body (c # cs) =
     (if c \<noteq> SQ then map_option ((#) c) (sq_body cs)
      else (case cs of
              [] \<Rightarrow> Some []
            | c1 # c2 # c3 # rest \<Rightarrow>
                if c1 = BSL \<and> c2 = SQ \<and> c3 = SQ then map_option ((#) SQ) (sq_body rest)
                else None
            | _ \<Rightarrow> None))"

definition sq_dequote :: "string \<Rightarrow> string option" where
  "sq_dequote arg = (case arg of [] \<Rightarrow> None | c # cs \<Rightarrow> if c = SQ then sq_body cs else None)"

section \<open>The session directory, the repository and the in-memory state\<close>

text \<open>
  An entry of the session directory is a regular file with its bytes, or a directory.
  The path \<^verbatim>\<open>state->dir\<close> itself is absent, something that is not a directory, or a
  directory with its entries by name.
\<close>

datatype node = Reg string | Dir

datatype dirnode = NoEnt | NotADir | IsDir "string \<rightharpoonup> node"

type_synonym tree = string

datatype commit =
  Commit (c_msg: string) (c_tree: tree) (c_parents: "commit list") (c_author: string)

text \<open>
  The calls that change the session directory, in the order they are made: \<open>oplog\<close> is a
  history variable of the model, used to state the ordering claims.
\<close>

datatype fsop = Mkdir | Write string | Unlink string | RemoveDir

record world =
  sdir :: dirnode
  ext :: "string \<rightharpoonup> node"
  index :: tree
  head_ref :: "commit option"
  objects :: "commit list"
  reflog :: "string list"
  out :: "string list"
  oplog :: "fsop list"

text \<open>
  \<^verbatim>\<open>struct am_state\<close>. A \<^verbatim>\<open>char *\<close> field is \<open>None\<close> when NULL. The field \<^verbatim>\<open>last\<close> is
  named \<open>last_no\<close> here, \<open>last\<close> being the list function.
\<close>

record am_state =
  dir :: string
  cur :: int
  last_no :: int
  author_name :: "string option"
  author_email :: "string option"
  author_date :: "string option"
  msg :: "string option"
  msg_len :: nat
  prec :: int

text \<open>
  How a call ends when it does not return: \<^verbatim>\<open>die\<close> (exit status 128, with its message),
  \<^verbatim>\<open>exit\<close> with a status, a failed \<^verbatim>\<open>assert\<close>, or C's undefined signed overflow. The
  world at that moment is kept with it.
\<close>

datatype abort = Die string | Exit nat | AssertFail string | Undefined string

type_synonym 'a result = "(abort \<times> world) + 'a"

datatype 'a io = Found 'a | ENOENT | EOTHER

definition am_state_init :: "string \<Rightarrow> am_state" where
  "am_state_init d =
     \<lparr>dir = d, cur = 0, last_no = 0, author_name = None, author_email = None,
      author_date = None, msg = None, msg_len = 0, prec = 4\<rparr>"

definition am_in_progress :: "am_state \<Rightarrow> world \<Rightarrow> int" where
  "am_in_progress state w =
     (case sdir w of
        IsDir m \<Rightarrow>
          (case m ''last'' of
             Some (Reg _) \<Rightarrow> (case m ''next'' of Some (Reg _) \<Rightarrow> 1 | _ \<Rightarrow> 0)
           | _ \<Rightarrow> 0)
      | _ \<Rightarrow> 0)"

subsection \<open>File primitives on the session directory\<close>

text \<open>
  \<open>read_file\<close> is \<^verbatim>\<open>strbuf_read_file\<close> with \<^verbatim>\<open>errno\<close>: the content, ENOENT, or another error
  (the path is a directory, or \<^verbatim>\<open>state->dir\<close> is not a directory).
\<close>

definition read_file :: "string \<Rightarrow> world \<Rightarrow> string io" where
  "read_file name w =
     (case sdir w of
        NoEnt \<Rightarrow> ENOENT
      | NotADir \<Rightarrow> EOTHER
      | IsDir m \<Rightarrow> (case m name of None \<Rightarrow> ENOENT | Some (Reg c) \<Rightarrow> Found c | Some Dir \<Rightarrow> EOTHER))"

text \<open>What \<^verbatim>\<open>lstat\<close> finds under a name of the session directory.\<close>

definition entry :: "world \<Rightarrow> string \<Rightarrow> node option" where
  "entry w name = (case sdir w of IsDir m \<Rightarrow> m name | _ \<Rightarrow> None)"

text \<open>
  \<^verbatim>\<open>open(path, O_WRONLY | O_CREAT)\<close>: the bytes already in the file (none when it is
  created), or \<open>None\<close> when the open fails.
\<close>

definition open_creat :: "string \<Rightarrow> world \<Rightarrow> string option" where
  "open_creat name w =
     (case sdir w of
        IsDir m \<Rightarrow> (case m name of None \<Rightarrow> Some [] | Some (Reg c) \<Rightarrow> Some c | Some Dir \<Rightarrow> None)
      | _ \<Rightarrow> None)"

definition put_file :: "string \<Rightarrow> string \<Rightarrow> world \<Rightarrow> world" where
  "put_file name c w =
     (case sdir w of
        IsDir m \<Rightarrow> w\<lparr>sdir := IsDir (m(name \<mapsto> Reg c)), oplog := oplog w @ [Write name]\<rparr>
      | _ \<Rightarrow> w)"

text \<open>Writing \<open>new\<close> at offset 0 of a file that holds \<open>old\<close>, without truncating it.\<close>

definition pwrite :: "string \<Rightarrow> string \<Rightarrow> string" where
  "pwrite old new = new @ drop (length new) old"

text \<open>
  Modelled from the spec: \<^verbatim>\<open>write_file(path, 1, fmt, ...)\<close> (wrapper.c) is not part of the
  source file: create or truncate, write the formatted bytes, close; fatal when the file
  cannot be opened.
\<close>

definition write_file :: "string \<Rightarrow> string \<Rightarrow> world \<Rightarrow> world result" where
  "write_file name content w =
     (case open_creat name w of
        None \<Rightarrow> Inl (Die ''could not open for writing'', w)
      | Some _ \<Rightarrow> Inr (put_file name content w))"

text \<open>\<^verbatim>\<open>unlink\<close>, its result ignored: only a regular file goes away.\<close>

definition unlink :: "string \<Rightarrow> world \<Rightarrow> world" where
  "unlink name w =
     (let w1 = w\<lparr>oplog := oplog w @ [Unlink name]\<rparr> in
      case sdir w of
        IsDir m \<Rightarrow> (case m name of Some (Reg _) \<Rightarrow> w1\<lparr>sdir := IsDir (m(name := None))\<rparr> | _ \<Rightarrow> w1)
      | _ \<Rightarrow> w1)"

definition git_isspace :: "char \<Rightarrow> bool" where
  "git_isspace c = (c = SPC \<or> c = TAB \<or> c = LF \<or> c = CR)"

text \<open>
  Modelled from the spec: \<^verbatim>\<open>strbuf_trim\<close> (strbuf.c) removes the whitespace at both ends
  of the buffer.
\<close>

definition strbuf_trim :: "string \<Rightarrow> string" where
  "strbuf_trim sb = dropWhile git_isspace (rev (dropWhile git_isspace (rev sb)))"

text \<open>
  \<^verbatim>\<open>read_state_file\<close> returns \<^verbatim>\<open>sb->len\<close>, a \<^verbatim>\<open>size_t\<close>, as an \<^verbatim>\<open>int\<close>: \<open>int_of_size\<close> is that
  conversion, which keeps the low 32 bits, so that the result is negative from
  \<open>2 ^ 31\<close> bytes on.
\<close>

definition int_of_size :: "nat \<Rightarrow> int" where
  "int_of_size n = sint (word_of_nat n :: 32 word)"

definition read_state_file :: "string \<Rightarrow> bool \<Rightarrow> world \<Rightarrow> (int \<times> string) result" where
  "read_state_file file trim w =
     (case read_file file w of
        Found c \<Rightarrow> (let sb = (if trim then strbuf_trim c else c) in Inr (int_of_size (length sb), sb))
      | ENOENT \<Rightarrow> Inr (- 1, [])
      | EOTHER \<Rightarrow> Inl (Die ''could not read'', w))"

section \<open>The author script\<close>

text \<open>
  \<^verbatim>\<open>read_shell_var\<close>: one \<^verbatim>\<open>KEY='value'\<close> line from the stream. The key and the quoting are
  checked on the C string in the line buffer. The result is the value (\<open>None\<close> for NULL)
  and the stream after the call.
\<close>

definition read_shell_var :: "string \<Rightarrow> string \<Rightarrow> string option \<times> string" where
  "read_shell_var fp key =
     (case strbuf_getline fp of
        None \<Rightarrow> (None, fp)
      | Some (sb, fp1) \<Rightarrow>
          (case skip_prefix (cstr sb) key of
             None \<Rightarrow> (None, fp1)
           | Some str \<Rightarrow>
               (case skip_prefix str ''='' of
                  None \<Rightarrow> (None, fp1)
                | Some str1 \<Rightarrow> (sq_dequote str1, fp1))))"

text \<open>
  \<^verbatim>\<open>read_author_script\<close>: 0 when the file is absent or parsed, -1 when it cannot be
  parsed. \<^verbatim>\<open>fopen\<close> of a directory succeeds and every read from it fails, which the line
  reader sees as end of file.
\<close>

definition read_author_script :: "am_state \<Rightarrow> world \<Rightarrow> (int \<times> am_state) result" where
  "read_author_script state w =
     (if author_name state \<noteq> None then Inl (AssertFail ''!state->author_name'', w)
      else if author_email state \<noteq> None then Inl (AssertFail ''!state->author_email'', w)
      else if author_date state \<noteq> None then Inl (AssertFail ''!state->author_date'', w)
      else
        (case sdir w of
           NoEnt \<Rightarrow> Inr (0, state)
         | NotADir \<Rightarrow> Inl (Die ''could not open for reading'', w)
         | IsDir m \<Rightarrow>
             (case m ''author-script'' of
                None \<Rightarrow> Inr (0, state)
              | Some n \<Rightarrow>
                  (let fp = (case n of Reg c \<Rightarrow> c | Dir \<Rightarrow> []) in
                   case read_shell_var fp ''GIT_AUTHOR_NAME'' of
                     (None, _) \<Rightarrow> Inr (- 1, state)
                   | (Some v1, fp1) \<Rightarrow>
                       (let state1 = state\<lparr>author_name := Some v1\<rparr> in
                        case read_shell_var fp1 ''GIT_AUTHOR_EMAIL'' of
                          (None, _) \<Rightarrow> Inr (- 1, state1)
                        | (Some v2, fp2) \<Rightarrow>
                            (let state2 = state1\<lparr>author_email := Some v2\<rparr> in
                             case read_shell_var fp2 ''GIT_AUTHOR_DATE'' of
                               (None, _) \<Rightarrow> Inr (- 1, state2)
                             | (Some v3, fp3) \<Rightarrow>
                                 (let state3 = state2\<lparr>author_date := Some v3\<rparr> in
                                  if fp3 \<noteq> [] then Inr (- 1, state3)
                                  else Inr (0, state3))))))))"

text \<open>
  The buffer \<^verbatim>\<open>write_author_script\<close> builds from the three C strings, and the function
  itself, which writes the buffer with the format \<^verbatim>\<open>"%s"\<close>.
\<close>

definition author_script :: "string \<Rightarrow> string \<Rightarrow> string \<Rightarrow> string" where
  "author_script name email date =
     ''GIT_AUTHOR_NAME='' @ sq_quote_buf (cstr name) @ [LF] @
     ''GIT_AUTHOR_EMAIL='' @ sq_quote_buf (cstr email) @ [LF] @
     ''GIT_AUTHOR_DATE='' @ sq_quote_buf (cstr date) @ [LF]"

definition write_author_script :: "am_state \<Rightarrow> world \<Rightarrow> world result" where
  "write_author_script state w =
     (case author_name state of
        None \<Rightarrow> Inl (AssertFail ''state->author_name'', w)
      | Some name \<Rightarrow>
     (case author_email state of
        None \<Rightarrow> Inl (AssertFail ''state->author_email'', w)
      | Some email \<Rightarrow>
     (case author_date state of
        None \<Rightarrow> Inl (AssertFail ''state->author_date'', w)
      | Some date \<Rightarrow> write_file ''author-script'' (cstr (author_script name email date)) w)))"

section \<open>The commit message file\<close>

definition read_commit_msg :: "am_state \<Rightarrow> world \<Rightarrow> (int \<times> am_state) result" where
  "read_commit_msg state w =
     (if msg state \<noteq> None then Inl (AssertFail ''!state->msg'', w)
      else
        (case read_state_file ''final-commit'' False w of
           Inl e \<Rightarrow> Inl e
         | Inr (n, sb) \<Rightarrow>
             if n < 0 then Inr (- 1, state)
             else Inr (0, state\<lparr>msg := Some sb, msg_len := length sb\<rparr>)))"

text \<open>
  \<^verbatim>\<open>write_commit_msg\<close>: the file is opened with \<^verbatim>\<open>O_WRONLY | O_CREAT\<close> and no \<^verbatim>\<open>O_TRUNC\<close>,
  and \<^verbatim>\<open>msg_len\<close> bytes are written at its start.
\<close>

definition write_commit_msg :: "am_state \<Rightarrow> world \<Rightarrow> world result" where
  "write_commit_msg state w =
     (case msg state of
        None \<Rightarrow> Inl (AssertFail ''state->msg'', w)
      | Some m \<Rightarrow>
          (case open_creat ''final-commit'' w of
             None \<Rightarrow> Inl (Die ''could not open final-commit'', w)
           | Some old \<Rightarrow> Inr (put_file ''final-commit'' (pwrite old (take (msg_len state) m)) w)))"

section \<open>Loading a session\<close>

definition c_isspace :: "char \<Rightarrow> bool" where
  "c_isspace c = (c = SPC \<or> c = TAB \<or> c = LF \<or> c = CHR 0x0B \<or> c = CHR 0x0C \<or> c = CR)"

definition isdigit :: "char \<Rightarrow> bool" where
  "isdigit c = (48 \<le> (of_char c :: nat) \<and> (of_char c :: nat) \<le> 57)"

definition digit_val :: "char \<Rightarrow> int" where
  "digit_val c = int (of_char c) - 48"

text \<open>
  The C library's \<^verbatim>\<open>strtol(s, NULL, 10)\<close> with a 64-bit \<^verbatim>\<open>long\<close>: white space, an optional
  sign, the longest run of digits (0 when there is none), clamped to the range of
  \<^verbatim>\<open>long\<close>. \<open>int_of_long\<close> is the conversion by which the assignment to an \<^verbatim>\<open>int\<close> field
  keeps the low 32 bits.
\<close>

definition strtol :: "string \<Rightarrow> int" where
  "strtol nptr =
     (let s = dropWhile c_isspace (cstr nptr);
          neg = (s \<noteq> [] \<and> hd s = CHR ''-'');
          s1 = (if s \<noteq> [] \<and> (hd s = CHR ''-'' \<or> hd s = CHR ''+'') then tl s else s);
          v = foldl (\<lambda>a c. a * 10 + digit_val c) 0 (takeWhile isdigit s1)
      in if neg then max (- (2 ^ 63)) (- v) else min (2 ^ 63 - 1) v)"

definition int_of_long :: "int \<Rightarrow> int" where
  "int_of_long x = sint (word_of_int x :: 32 word)"

definition am_load :: "am_state \<Rightarrow> world \<Rightarrow> am_state result" where
  "am_load state w =
     (case read_state_file ''next'' True w of
        Inl e \<Rightarrow> Inl e
      | Inr (n1, sb1) \<Rightarrow>
          if n1 < 0 then Inl (Die ''BUG: state file 'next' does not exist'', w)
          else
            (let state1 = state\<lparr>cur := int_of_long (strtol sb1)\<rparr> in
             case read_state_file ''last'' True w of
               Inl e \<Rightarrow> Inl e
             | Inr (n2, sb2) \<Rightarrow>
                 if n2 < 0 then Inl (Die ''BUG: state file 'last' does not exist'', w)
                 else
                   (let state2 = state1\<lparr>last_no := int_of_long (strtol sb2)\<rparr> in
                    case read_author_script state2 w of
                      Inl e \<Rightarrow> Inl e
                    | Inr (r, state3) \<Rightarrow>
                        if r < 0 then Inl (Die ''could not parse author script'', w)
                        else
                          (case read_commit_msg state3 w of
                             Inl e \<Rightarrow> Inl e
                           | Inr (_, state4) \<Rightarrow> Inr state4))))"

section \<open>Detecting the patch format\<close>

datatype patch_format = PATCH_FORMAT_UNKNOWN | PATCH_FORMAT_MBOX

lemma strbuf_getwholeline_shorter:
  "strbuf_getwholeline fp = Some (sb, rest) \<Longrightarrow> length rest < length fp"
proof -
  assume a: "strbuf_getwholeline fp = Some (sb, rest)"
  have le: "length (dropWhile (\<lambda>c. c \<noteq> LF) fp) \<le> length fp"
    by (rule length_dropWhile_le)
  from a have ne: "fp \<noteq> []"
    by (auto simp: strbuf_getwholeline_def split: if_splits)
  show ?thesis
  proof (cases "dropWhile (\<lambda>c. c \<noteq> LF) fp")
    case Nil
    with a ne show ?thesis by (simp add: strbuf_getwholeline_def)
  next
    case (Cons x xs)
    with a ne have "rest = xs" by (simp add: strbuf_getwholeline_def)
    with le Cons show ?thesis by simp
  qed
qed

lemma strbuf_getline_crlf_shorter:
  "strbuf_getline_crlf fp = Some (sb, rest) \<Longrightarrow> length rest < length fp"
  by (auto simp: strbuf_getline_crlf_def Let_def split: option.splits if_splits
      dest: strbuf_getwholeline_shorter)

lemma strbuf_getline_shorter:
  "strbuf_getline fp = Some (sb, rest) \<Longrightarrow> length rest < length fp"
  by (auto simp: strbuf_getline_def split: option.splits if_splits
      dest: strbuf_getwholeline_shorter)

text \<open>
  The C library's \<^verbatim>\<open>regexec\<close> for the pattern \<^verbatim>\<open>^[!-9;-~]+:\<close> on a C string: one or more
  bytes of the class (33 to 57, 59 to 126), then a colon. The colon (58) is not in the
  class, so the run of class bytes that the colon must follow is the longest one.
\<close>

definition in_header_class :: "char \<Rightarrow> bool" where
  "in_header_class c =
     ((33 \<le> (of_char c :: nat) \<and> (of_char c :: nat) \<le> 57) \<or>
      (59 \<le> (of_char c :: nat) \<and> (of_char c :: nat) \<le> 126))"

definition header_regex_match :: "string \<Rightarrow> bool" where
  "header_regex_match buf =
     (takeWhile in_header_class (cstr buf) \<noteq> [] \<and>
      (case dropWhile in_header_class (cstr buf) of [] \<Rightarrow> False | c # _ \<Rightarrow> c = CHR '':''))"

text \<open>
  The loop of \<^verbatim>\<open>is_mail\<close> on the bytes still to read; \<^verbatim>\<open>is_mail\<close> itself first seeks
  back to offset 0, so it is given the whole content of the file.
\<close>

function is_mail_loop :: "string \<Rightarrow> int" where
  "is_mail_loop fp =
     (case strbuf_getline_crlf fp of
        None \<Rightarrow> 1
      | Some (sb, rest) \<Rightarrow>
          if sb = [] then 1
          else if hd sb = TAB \<or> hd sb = SPC then is_mail_loop rest
          else if \<not> header_regex_match sb then 0
          else is_mail_loop rest)"
  by pat_completeness auto
termination
  by (relation "measure length") (auto dest: strbuf_getline_crlf_shorter)

definition is_mail :: "string \<Rightarrow> int" where
  "is_mail content = is_mail_loop content"

text \<open>
  The first loop of \<^verbatim>\<open>detect_patch_format\<close>: the first non-blank line \<^verbatim>\<open>l1\<close>, empty when
  the file has none.
\<close>

function first_nonblank_line :: "string \<Rightarrow> string" where
  "first_nonblank_line fp =
     (case strbuf_getline_crlf fp of
        None \<Rightarrow> []
      | Some (l1, rest) \<Rightarrow> if l1 \<noteq> [] then l1 else first_nonblank_line rest)"
  by pat_completeness auto
termination
  by (relation "measure length") (auto dest: strbuf_getline_crlf_shorter)

text \<open>What \<^verbatim>\<open>detect_patch_format\<close> does once the first path is open as a file.\<close>

definition detect_file :: "string \<Rightarrow> patch_format" where
  "detect_file content =
     (let l1 = first_nonblank_line content in
      if starts_with (cstr l1) ''From '' \<or> starts_with (cstr l1) ''From: '' then PATCH_FORMAT_MBOX
      else if l1 \<noteq> [] \<and> is_mail content \<noteq> 0 then PATCH_FORMAT_MBOX
      else PATCH_FORMAT_UNKNOWN)"

definition detect_patch_format :: "string list \<Rightarrow> world \<Rightarrow> patch_format result" where
  "detect_patch_format paths w =
     (case paths of
        [] \<Rightarrow> Inr PATCH_FORMAT_MBOX
      | p # _ \<Rightarrow>
          if p = ''-'' \<or> ext w p = Some Dir then Inr PATCH_FORMAT_MBOX
          else
            (case ext w p of
               Some (Reg content) \<Rightarrow> Inr (detect_file content)
             | _ \<Rightarrow> Inl (Die ''could not open for reading'', w)))"

section \<open>The external collaborators\<close>

text \<open>
  The child processes and repository primitives that \<^verbatim>\<open>am.c\<close> calls are parameters of the
  model, each a function of what the call hands over:
  \<^item> \<open>mailsplit\<close>: from the precision, the paths and the world, the status of
    \<^verbatim>\<open>capture_command\<close>, the captured standard output and the files written to the
    session directory, in order;
  \<^item> \<open>mailinfo\<close>: from its standard input, the result of \<^verbatim>\<open>run_command\<close>, its standard
    output and what it writes to the \<^verbatim>\<open>msg\<close> and \<^verbatim>\<open>patch\<close> files (\<open>None\<close>: not written);
  \<^item> \<open>git_apply\<close>: from the \<^verbatim>\<open>patch\<close> entry and the index, the result of \<^verbatim>\<open>run_command\<close>
    and the index it leaves;
  \<^item> \<open>stripspace\<close>, \<open>fmt_ident\<close> (\<open>None\<close>: it dies), \<open>write_cache_as_tree\<close> (\<open>None\<close>: it
    fails), \<open>commit_tree_ok\<close>, \<open>refresh_cache\<close> (\<open>None\<close>: the index cannot be written),
    and the environment and configuration values read.
\<close>

record tools =
  mailsplit :: "int \<Rightarrow> string list \<Rightarrow> world \<Rightarrow> int \<times> string \<times> (string \<times> string) list"
  mailinfo :: "node \<Rightarrow> int \<times> string \<times> string option \<times> string option"
  git_apply :: "node option \<Rightarrow> tree \<Rightarrow> int \<times> tree"
  stripspace :: "string \<Rightarrow> string"
  fmt_ident :: "string \<Rightarrow> string \<Rightarrow> string \<Rightarrow> string option"
  write_cache_as_tree :: "tree \<Rightarrow> tree option"
  commit_tree_ok :: "commit \<Rightarrow> bool"
  refresh_cache :: "tree \<Rightarrow> tree option"
  reflog_action :: "string option"
  advice_amworkdir :: bool
  read_index_ok :: bool

text \<open>A file written by a child process: nothing happens where it cannot be opened.\<close>

definition tool_write :: "string \<Rightarrow> string \<Rightarrow> world \<Rightarrow> world" where
  "tool_write name c w = (case open_creat name w of None \<Rightarrow> w | Some _ \<Rightarrow> put_file name c w)"

definition print_ln :: "string \<Rightarrow> world \<Rightarrow> world" where
  "print_ln line w = w\<lparr>out := out w @ [line]\<rparr>"

section \<open>Setting up, advancing and destroying a session\<close>

text \<open>\<^verbatim>\<open>printf\<close> with \<^verbatim>\<open>"%d"\<close>, and with \<^verbatim>\<open>"%0*d"\<close> for a width that is not negative.\<close>

fun dec_nat :: "nat \<Rightarrow> string" where
  "dec_nat n =
     (if n < 10 then [char_of (48 + n)] else dec_nat (n div 10) @ [char_of (48 + n mod 10)])"

declare dec_nat.simps [simp del]

definition printf_d :: "int \<Rightarrow> string" where
  "printf_d i = (if i < 0 then CHR ''-'' # dec_nat (nat (- i)) else dec_nat (nat i))"

definition printf_0d :: "int \<Rightarrow> int \<Rightarrow> string" where
  "printf_0d width i =
     (let sign = (if i < 0 then ''-'' else []);
          ds = dec_nat (nat \<bar>i\<bar>)
      in sign @ replicate (nat width - length sign - length ds) CHR ''0'' @ ds)"

definition split_mail_mbox ::
  "tools \<Rightarrow> am_state \<Rightarrow> string list \<Rightarrow> world \<Rightarrow> int \<times> am_state \<times> world" where
  "split_mail_mbox T state paths w =
     (case mailsplit T (prec state) paths w of
        (rc, last_out, files) \<Rightarrow>
          (let w1 = foldl (\<lambda>v (name, c). tool_write name c v) w files in
           if rc \<noteq> 0 then (- 1, state, w1)
           else (0, state\<lparr>cur := 1, last_no := int_of_long (strtol last_out)\<rparr>, w1)))"

definition split_mail ::
  "tools \<Rightarrow> am_state \<Rightarrow> patch_format \<Rightarrow> string list \<Rightarrow> world
    \<Rightarrow> (int \<times> am_state \<times> world) result" where
  "split_mail T state pf paths w =
     (case pf of
        PATCH_FORMAT_MBOX \<Rightarrow> Inr (split_mail_mbox T state paths w)
      | _ \<Rightarrow> Inl (Die ''BUG: invalid patch_format'', w))"

text \<open>
  \<^verbatim>\<open>mkdir(state->dir, 0777)\<close>, where an existing path (EEXIST) is accepted, whatever it
  is; the other failures of \<^verbatim>\<open>mkdir\<close> lie in the directory above, which the world does not
  hold. \<^verbatim>\<open>am_destroy\<close> removes the directory with all it holds.
\<close>

definition mkdir :: "world \<Rightarrow> world" where
  "mkdir w =
     (let w1 = w\<lparr>oplog := oplog w @ [Mkdir]\<rparr> in
      case sdir w of NoEnt \<Rightarrow> w1\<lparr>sdir := IsDir Map.empty\<rparr> | _ \<Rightarrow> w1)"

definition am_destroy :: "am_state \<Rightarrow> world \<Rightarrow> world" where
  "am_destroy state w =
     (let w1 = w\<lparr>oplog := oplog w @ [RemoveDir]\<rparr> in
      case sdir w of IsDir _ \<Rightarrow> w1\<lparr>sdir := NoEnt\<rparr> | _ \<Rightarrow> w1)"

definition am_setup ::
  "tools \<Rightarrow> am_state \<Rightarrow> patch_format \<Rightarrow> string list \<Rightarrow> world \<Rightarrow> (am_state \<times> world) result" where
  "am_setup T state patch_format paths w =
     (case (if patch_format = PATCH_FORMAT_UNKNOWN then detect_patch_format paths w
            else Inr patch_format) of
        Inl e \<Rightarrow> Inl e
      | Inr pf \<Rightarrow>
          if pf = PATCH_FORMAT_UNKNOWN
          then Inl (Exit 128, print_ln ''Patch format detection failed.'' w)
          else
            (case split_mail T state pf paths (mkdir w) of
               Inl e \<Rightarrow> Inl e
             | Inr (rc, state1, w1) \<Rightarrow>
                 if rc < 0 then Inl (Die ''Failed to split patches.'', am_destroy state1 w1)
                 else
                   (case write_file ''next'' (printf_d (cur state1)) w1 of
                      Inl e \<Rightarrow> Inl e
                    | Inr w2 \<Rightarrow>
                        (case write_file ''last'' (printf_d (last_no state1)) w2 of
                           Inl e \<Rightarrow> Inl e
                         | Inr w3 \<Rightarrow> Inr (state1, w3)))))"

text \<open>
  \<^verbatim>\<open>am_next\<close>. The increment of \<^verbatim>\<open>cur\<close> at \<^verbatim>\<open>INT_MAX\<close> is undefined in C and ends the
  model's run.
\<close>

definition am_next :: "am_state \<Rightarrow> world \<Rightarrow> (am_state \<times> world) result" where
  "am_next state w =
     (let state1 = state\<lparr>author_name := None, author_email := None, author_date := None,
                         msg := None, msg_len := 0\<rparr>;
          w1 = unlink ''author-script'' w;
          w2 = unlink ''final-commit'' w1
      in if cur state1 = 2 ^ 31 - 1 then Inl (Undefined ''state->cur++ overflows'', w2)
         else
           (let state2 = state1\<lparr>cur := cur state1 + 1\<rparr> in
            case write_file ''next'' (printf_d (cur state2)) w2 of
              Inl e \<Rightarrow> Inl e
            | Inr w3 \<Rightarrow> Inr (state2, w3)))"

definition msgnum :: "am_state \<Rightarrow> string" where
  "msgnum state = printf_0d (prec state) (cur state)"

section \<open>One patch: parse, apply, commit\<close>

definition is_empty_file :: "string \<Rightarrow> world \<Rightarrow> int result" where
  "is_empty_file filename w =
     (case sdir w of
        NoEnt \<Rightarrow> Inr 1
      | NotADir \<Rightarrow> Inl (Die ''could not stat'', w)
      | IsDir m \<Rightarrow>
          (case m filename of
             None \<Rightarrow> Inr 1
           | Some (Reg c) \<Rightarrow> Inr (if c = [] then 1 else 0)
           | Some Dir \<Rightarrow> Inr 0))"

definition file_exists :: "string \<Rightarrow> world \<Rightarrow> bool" where
  "file_exists name w = (entry w name \<noteq> None)"

text \<open>
  The loop of \<^verbatim>\<open>parse_mail\<close> over the lines of \<^verbatim>\<open>info\<close>, with the four buffers it fills:
  message, author name, author email, author date.
\<close>

function extract_info ::
  "string \<Rightarrow> string \<times> string \<times> string \<times> string \<Rightarrow> string \<times> string \<times> string \<times> string" where
  "extract_info fp (m, an, ae, ad) =
     (case strbuf_getline fp of
        None \<Rightarrow> (m, an, ae, ad)
      | Some (sb, rest) \<Rightarrow>
          (case skip_prefix (cstr sb) ''Subject: '' of
             Some x \<Rightarrow> extract_info rest ((if m \<noteq> [] then m @ [LF] else m) @ x, an, ae, ad)
           | None \<Rightarrow>
          (case skip_prefix (cstr sb) ''Author: '' of
             Some x \<Rightarrow> extract_info rest (m, an @ x, ae, ad)
           | None \<Rightarrow>
          (case skip_prefix (cstr sb) ''Email: '' of
             Some x \<Rightarrow> extract_info rest (m, an, ae @ x, ad)
           | None \<Rightarrow>
          (case skip_prefix (cstr sb) ''Date: '' of
             Some x \<Rightarrow> extract_info rest (m, an, ae, ad @ x)
           | None \<Rightarrow> extract_info rest (m, an, ae, ad))))))"
  by pat_completeness auto
termination
  by (relation "measure (\<lambda>(fp, _). length fp)") (auto dest: strbuf_getline_shorter)

declare extract_info.simps [simp del]

text \<open>
  \<^verbatim>\<open>run_command\<close> on \<^verbatim>\<open>mailinfo\<close>: its standard output goes to the descriptor opened on
  \<^verbatim>\<open>info\<close> (at offset 0, the file not truncated), and it writes the \<^verbatim>\<open>msg\<close> and \<^verbatim>\<open>patch\<close>
  files.
\<close>

definition run_mailinfo :: "tools \<Rightarrow> node \<Rightarrow> string \<Rightarrow> world \<Rightarrow> int \<times> world" where
  "run_mailinfo T inp old_info w =
     (case mailinfo T inp of
        (rc, info_out, msg_file, patch_file) \<Rightarrow>
          (let w1 = put_file ''info'' (pwrite old_info info_out) w;
               w2 = (case msg_file of None \<Rightarrow> w1 | Some c \<Rightarrow> tool_write ''msg'' c w1);
               w3 = (case patch_file of None \<Rightarrow> w2 | Some c \<Rightarrow> tool_write ''patch'' c w2)
           in (rc, w3)))"

definition parse_mail ::
  "tools \<Rightarrow> am_state \<Rightarrow> string \<Rightarrow> world \<Rightarrow> (int \<times> am_state \<times> world) result" where
  "parse_mail T state mail w =
     (case entry w mail of
        None \<Rightarrow> Inl (Die ''could not open mail'', w)
      | Some inp \<Rightarrow>
     (case open_creat ''info'' w of
        None \<Rightarrow> Inl (Die ''could not open info'', w)
      | Some old_info \<Rightarrow>
     (case run_mailinfo T inp old_info w of
        (rc, w3) \<Rightarrow>
           if rc < 0 then Inl (Die ''could not parse patch'', w3)
           else
             (case read_file ''info'' w3 of
                Found info \<Rightarrow>
                  (case extract_info info ([], [], [], []) of
                     (m, an, ae, ad) \<Rightarrow>
                       if cstr an = ''Mail System Internal Data'' then Inr (1, state, w3)
                       else
                         (case is_empty_file ''patch'' w3 of
                            Inl e \<Rightarrow> Inl e
                          | Inr no_patch \<Rightarrow>
                              if no_patch \<noteq> 0
                              then Inl (Exit 128,
                                        print_ln ''Patch is empty. Was it split wrong?'' w3)
                              else
                                (case read_file ''msg'' w3 of
                                   Found body \<Rightarrow>
                                     (let m1 = stripspace T (m @ [LF, LF] @ body) in
                                      if author_name state \<noteq> None
                                      then Inl (AssertFail ''!state->author_name'', w3)
                                      else if author_email state \<noteq> None
                                      then Inl (AssertFail ''!state->author_email'', w3)
                                      else if author_date state \<noteq> None
                                      then Inl (AssertFail ''!state->author_date'', w3)
                                      else if msg state \<noteq> None
                                      then Inl (AssertFail ''!state->msg'', w3)
                                      else Inr (0,
                                                state\<lparr>author_name := Some an,
                                                      author_email := Some ae,
                                                      author_date := Some ad,
                                                      msg := Some m1, msg_len := length m1\<rparr>,
                                                w3))
                                 | _ \<Rightarrow> Inl (Die ''could not read msg'', w3))))
              | _ \<Rightarrow> Inl (Die ''could not open info'', w3)))))"

definition run_apply :: "tools \<Rightarrow> am_state \<Rightarrow> world \<Rightarrow> int \<times> world" where
  "run_apply T state w =
     (case git_apply T (entry w ''patch'') (index w) of
        (rc, idx) \<Rightarrow> if rc \<noteq> 0 then (- 1, w\<lparr>index := idx\<rparr>) else (0, w\<lparr>index := idx\<rparr>))"

text \<open>
  \<^verbatim>\<open>do_commit\<close>. A commit object is identified by its content. \<^verbatim>\<open>update_ref\<close> finds
  \<^verbatim>\<open>HEAD\<close> as it was read a moment before, the program being alone on the repository.
\<close>

definition do_commit :: "tools \<Rightarrow> am_state \<Rightarrow> world \<Rightarrow> world result" where
  "do_commit T state w =
     (case write_cache_as_tree T (index w) of
        None \<Rightarrow> Inl (Die ''git write-tree failed to write a tree'', w)
      | Some tr \<Rightarrow>
          (let w1 = (case head_ref w of
                       Some _ \<Rightarrow> w
                     | None \<Rightarrow> print_ln ''applying to an empty history'' w);
               parents = (case head_ref w of Some p \<Rightarrow> [p] | None \<Rightarrow> [])
           in
           case (author_name state, author_email state, author_date state, msg state) of
             (Some an, Some ae, Some ad, Some m) \<Rightarrow>
               (case fmt_ident T (cstr an) (cstr ae) (cstr ad) of
                  None \<Rightarrow> Inl (Die ''fmt_ident'', w1)
                | Some author \<Rightarrow>
                    (let c = Commit (take (msg_len state) m) tr parents author in
                     if \<not> commit_tree_ok T c
                     then Inl (Die ''failed to write commit object'', w1)
                     else
                       Inr (w1\<lparr>objects := objects w1 @ [c],
                               reflog := reflog w1 @
                                 [(case reflog_action T of None \<Rightarrow> ''am'' | Some a \<Rightarrow> a) @
                                  '': '' @ take (linelen m) m],
                               head_ref := Some c\<rparr>)))
           | _ \<Rightarrow> Inl (Undefined ''NULL author or message'', w1)))"

section \<open>The run loop\<close>

text \<open>
  One pass of the loop body of \<^verbatim>\<open>am_run\<close> up to the label \<^verbatim>\<open>next\<close>; the loop then calls
  \<^verbatim>\<open>am_next\<close>.
\<close>

definition am_run_iter :: "tools \<Rightarrow> am_state \<Rightarrow> world \<Rightarrow> (am_state \<times> world) result" where
  "am_run_iter T state w =
     (if \<not> file_exists (msgnum state) w then Inr (state, w)
      else
        (case parse_mail T state (msgnum state) w of
           Inl e \<Rightarrow> Inl e
         | Inr (skip, state1, w1) \<Rightarrow>
             if skip \<noteq> 0 then Inr (state1, w1)
             else
               (case write_author_script state1 w1 of
                  Inl e \<Rightarrow> Inl e
                | Inr w2 \<Rightarrow>
                    (case write_commit_msg state1 w2 of
                       Inl e \<Rightarrow> Inl e
                     | Inr w3 \<Rightarrow>
                         (let m = (case msg state1 of Some x \<Rightarrow> x | None \<Rightarrow> []);
                              w4 = print_ln (''Applying: '' @ take (linelen m) m) w3
                          in
                          case run_apply T state1 w4 of
                            (r, w5) \<Rightarrow>
                              if r < 0 then
                                (let w6 = print_ln (''Patch failed at '' @ msgnum state1 @ '' '' @
                                                    take (linelen m) m) w5;
                                     w7 = (if advice_amworkdir T
                                           then print_ln
                                                  (''The copy of the patch that failed is found in: ''
                                                   @ dir state1 @ ''/patch'') w6
                                           else w6)
                                 in Inl (Exit 128, w7))
                              else
                                (case do_commit T state1 w5 of
                                   Inl e \<Rightarrow> Inl e
                                 | Inr w8 \<Rightarrow> Inr (state1, w8)))))))"

lemma parse_mail_keeps_numbers:
  "parse_mail T state mail w = Inr (r, state1, w1) \<Longrightarrow>
     cur state1 = cur state \<and> last_no state1 = last_no state \<and> prec state1 = prec state \<and> dir state1 = dir state"
  unfolding parse_mail_def Let_def
  by (auto split: option.splits prod.splits io.splits sum.splits if_splits)

lemma am_run_iter_keeps_numbers:
  "am_run_iter T state w = Inr (state1, w1) \<Longrightarrow>
     cur state1 = cur state \<and> last_no state1 = last_no state"
  unfolding am_run_iter_def Let_def
  by (auto split: sum.splits prod.splits if_splits dest: parse_mail_keeps_numbers)

lemma am_next_advances:
  "am_next state w = Inr (state1, w1) \<Longrightarrow>
     cur state1 = cur state + 1 \<and> last_no state1 = last_no state"
  unfolding am_next_def Let_def
  by (auto split: sum.splits if_splits)

function am_run_loop :: "tools \<Rightarrow> am_state \<Rightarrow> world \<Rightarrow> (am_state \<times> world) result" where
  "am_run_loop T state w =
     (if cur state \<le> last_no state then
        (case am_run_iter T state w of
           Inl e \<Rightarrow> Inl e
         | Inr (state1, w1) \<Rightarrow>
             (case am_next state1 w1 of
                Inl e \<Rightarrow> Inl e
              | Inr (state2, w2) \<Rightarrow> am_run_loop T state2 w2))
      else Inr (state, w))"
  by pat_completeness auto
termination
proof (relation "measure (\<lambda>(T, state, w). nat (last_no state + 1 - cur state))")
  show "wf (measure (\<lambda>(T, state, w). nat (last_no state + 1 - cur state)))" by simp
next
  fix T state w x2 x y xa ya xb yb
  assume "cur state \<le> last_no state" "am_run_iter T state w = Inr x2" "(x, y) = x2"
    "am_next x y = Inr xa" "(xb, yb) = xa"
  then show "((T, xb, yb), T, state, w) \<in> measure (\<lambda>(T, state, w). nat (last_no state + 1 - cur state))"
    using am_run_iter_keeps_numbers[of T state w x y] am_next_advances[of x y xb yb]
    by auto
qed

declare am_run_loop.simps [simp del]

text \<open>
  \<^verbatim>\<open>am_run\<close>: refresh the index, run the loop, destroy the session. The final
  \<^verbatim>\<open>gc --auto\<close>, whose result is ignored, is left out.
\<close>

definition am_run :: "tools \<Rightarrow> am_state \<Rightarrow> world \<Rightarrow> (am_state \<times> world) result" where
  "am_run T state w =
     (case refresh_cache T (index w) of
        None \<Rightarrow> Inl (Die ''unable to write index file'', w)
      | Some idx \<Rightarrow>
          (case am_run_loop T state (w\<lparr>index := idx\<rparr>) of
             Inl e \<Rightarrow> Inl e
           | Inr (state1, w1) \<Rightarrow> Inr (state1, am_destroy state1 w1)))"

text \<open>
  \<^verbatim>\<open>cmd_am\<close> once the options are parsed and the paths are made absolute: load the
  session in progress or set one up, then run.
\<close>

definition cmd_am ::
  "tools \<Rightarrow> patch_format \<Rightarrow> string list \<Rightarrow> world \<Rightarrow> (am_state \<times> world) result" where
  "cmd_am T patch_format paths w =
     (let state = am_state_init ''.git/rebase-apply'' in
      if \<not> read_index_ok T then Inl (Die ''failed to read the index'', w)
      else
        (case (if am_in_progress state w \<noteq> 0
               then (case am_load state w of Inl e \<Rightarrow> Inl e | Inr state1 \<Rightarrow> Inr (state1, w))
               else am_setup T state patch_format paths w) of
           Inl e \<Rightarrow> Inl e
         | Inr (state1, w1) \<Rightarrow> am_run T state1 w1))"

section \<open>Notions used in the properties\<close>

declare is_mail_loop.simps [simp del]
declare first_nonblank_line.simps [simp del]

text \<open>
  The lines of a file as \<^verbatim>\<open>strbuf_getline_crlf\<close> delivers them one after the other, and the
  words of the format rule on them: the header block is what precedes the first blank
  line; a line is indented when it starts with a space or a tab.
\<close>

function crlf_lines :: "string \<Rightarrow> string list" where
  "crlf_lines fp =
     (case strbuf_getline_crlf fp of None \<Rightarrow> [] | Some (sb, rest) \<Rightarrow> sb # crlf_lines rest)"
  by pat_completeness auto
termination
  by (relation "measure length") (auto dest: strbuf_getline_crlf_shorter)

declare crlf_lines.simps [simp del]

definition header_block :: "string list \<Rightarrow> string list" where
  "header_block ls = takeWhile (\<lambda>l. l \<noteq> []) ls"

definition indented :: "string \<Rightarrow> bool" where
  "indented l = (l \<noteq> [] \<and> (hd l = TAB \<or> hd l = SPC))"

definition all_headers :: "string list \<Rightarrow> bool" where
  "all_headers ls = list_all (\<lambda>l. indented l \<or> header_regex_match l) (header_block ls)"

text \<open>
  Two worlds hold the same history when \<^verbatim>\<open>HEAD\<close>, the commit objects and the reflog are
  the same.
\<close>

definition same_repo :: "world \<Rightarrow> world \<Rightarrow> bool" where
  "same_repo v w = (head_ref v = head_ref w \<and> objects v = objects w \<and> reflog v = reflog w)"

text \<open>
  The two per-patch files \<^verbatim>\<open>author-script\<close> and \<^verbatim>\<open>final-commit\<close>: both absent, or both
  present as regular files.
\<close>

definition is_reg :: "node option \<Rightarrow> bool" where
  "is_reg x = (case x of Some (Reg _) \<Rightarrow> True | _ \<Rightarrow> False)"

definition scratch_absent :: "world \<Rightarrow> bool" where
  "scratch_absent w = (entry w ''author-script'' = None \<and> entry w ''final-commit'' = None)"

definition scratch_present :: "world \<Rightarrow> bool" where
  "scratch_present w = (is_reg (entry w ''author-script'') \<and> is_reg (entry w ''final-commit''))"

text \<open>
  A text starts with a number, as \<^verbatim>\<open>strtol\<close> reads one, when a decimal digit follows its
  leading white space and optional sign. A state file is lost to \<^verbatim>\<open>am_load\<close> when it is
  missing, when it cannot be read, or when the length of its trimmed content is negative
  as an \<^verbatim>\<open>int\<close>.
\<close>

definition starts_number :: "string \<Rightarrow> bool" where
  "starts_number s =
     (case dropWhile c_isspace (cstr s) of
        [] \<Rightarrow> False
      | c # t \<Rightarrow> if c = CHR ''-'' \<or> c = CHR ''+'' then t \<noteq> [] \<and> isdigit (hd t) else isdigit c)"


text \<open>The patch of this iteration is parsed when its mail exists and \<^verbatim>\<open>parse_mail\<close> returns 0.\<close>

definition patch_parsed :: "tools \<Rightarrow> am_state \<Rightarrow> world \<Rightarrow> bool" where
  "patch_parsed T state w =
     (file_exists (msgnum state) w \<and>
      (case parse_mail T state (msgnum state) w of Inr (r, _, _) \<Rightarrow> r = 0 | Inl _ \<Rightarrow> False))"

section \<open>Concrete collaborators, inputs and sessions\<close>

text \<open>
  Concrete collaborators. The splitter writes the given mails under the names it is
  given and prints the highest number. The parser reports the content of the mail as
  the author's name, with a fixed email, date, subject and body, and a patch made of the
  mail's content (an empty patch for the mail \<^verbatim>\<open>nopatch\<close> and for the mail folder's internal
  data). The applier rejects the patch \<^verbatim>\<open>diff conflict\<close> and appends any other to the index.
\<close>

definition ex_mailinfo :: "node \<Rightarrow> int \<times> string \<times> string option \<times> string option" where
  "ex_mailinfo inp =
     (case inp of
        Reg c \<Rightarrow>
          (0,
           ''Author: '' @ c @ [LF] @ ''Email: a@u.th'' @ [LF] @ ''Subject: Hello'' @ [LF] @
           ''Date: Mon, 1 Jan 2001 00:00:00 +0000'' @ [LF],
           Some (''Added line'' @ [LF]),
           Some (if c = ''nopatch'' \<or> c = ''Mail System Internal Data'' then [] else ''diff '' @ c))
      | Dir \<Rightarrow> (128, [], None, None))"

definition ex_git_apply :: "node option \<Rightarrow> tree \<Rightarrow> int \<times> tree" where
  "ex_git_apply p idx =
     (case p of
        Some (Reg c) \<Rightarrow> if c = ''diff conflict'' then (1, idx) else (0, idx @ c)
      | _ \<Rightarrow> (128, idx))"

definition ex_tools :: "(string \<times> string) list \<Rightarrow> tools" where
  "ex_tools mails =
     \<lparr>mailsplit = (\<lambda>p paths w. (0, printf_d (int (length mails)) @ [LF], mails)),
      mailinfo = ex_mailinfo,
      git_apply = ex_git_apply,
      stripspace = (\<lambda>s. s),
      fmt_ident = (\<lambda>n e d. if n = [] then None else Some (n @ '' <'' @ e @ ''> '' @ d)),
      write_cache_as_tree = Some,
      commit_tree_ok = (\<lambda>c. True),
      refresh_cache = Some,
      reflog_action = None,
      advice_amworkdir = True,
      read_index_ok = True\<rparr>"

text \<open>
  Inputs of the format detection: a world with one patch file and no session directory,
  and two contents for that file.
\<close>

definition ex_input :: "string \<Rightarrow> world" where
  "ex_input content =
     \<lparr>sdir = NoEnt, ext = [''0001.patch'' \<mapsto> Reg content], index = [], head_ref = None,
      objects = [], reflog = [], out = [], oplog = []\<rparr>"

definition ex_garbage :: string where
  "ex_garbage = ''garbage'' @ [LF] @ ''Subject: x'' @ [LF]"

definition ex_headers :: string where
  "ex_headers = ''Subject: x'' @ [LF] @ ''From: a@b'' @ [LF]"

definition ex_fresh :: world where
  "ex_fresh =
     \<lparr>sdir = NoEnt, ext = [''0001.patch'' \<mapsto> Reg ''From a@u.th''], index = [], head_ref = None,
      objects = [], reflog = [], out = [], oplog = []\<rparr>"

text \<open>
  A state at patch 1 of 1, a world whose session directory holds the given entries, the
  session of one mail, and the world, the \<^verbatim>\<open>info\<close> text, the message and the state that parsing
  that mail gives.
\<close>

definition ex_state :: am_state where
  "ex_state = (am_state_init ''.git/rebase-apply'')\<lparr>cur := 1, last_no := 1\<rparr>"

definition ex_world :: "(string \<rightharpoonup> node) \<Rightarrow> world" where
  "ex_world m = \<lparr>sdir = IsDir m, ext = Map.empty, index = [], head_ref = None, objects = [],
                 reflog = [], out = [], oplog = []\<rparr>"

definition ex_session :: "string \<Rightarrow> world" where
  "ex_session mail = ex_world [''0001'' \<mapsto> Reg mail, ''next'' \<mapsto> Reg ''1'', ''last'' \<mapsto> Reg ''1'']"

definition ex_parsed :: "string \<Rightarrow> world" where
  "ex_parsed mail = snd (run_mailinfo (ex_tools []) (Reg mail) [] (ex_session mail))"

definition ex_info :: "string \<Rightarrow> string" where
  "ex_info mail =
     ''Author: '' @ mail @ [LF] @ ''Email: a@u.th'' @ [LF] @ ''Subject: Hello'' @ [LF] @
     ''Date: Mon, 1 Jan 2001 00:00:00 +0000'' @ [LF]"

definition ex_msg :: string where
  "ex_msg = ''Hello'' @ [LF, LF] @ ''Added line'' @ [LF]"

definition ex_state_parsed :: "string \<Rightarrow> am_state" where
  "ex_state_parsed mail =
     ex_state\<lparr>author_name := Some mail, author_email := Some ''a@u.th'',
              author_date := Some ''Mon, 1 Jan 2001 00:00:00 +0000'',
              msg := Some ex_msg, msg_len := length ex_msg\<rparr>"

text \<open>
  The session directory as an apply failure on its only patch leaves it: the mail, the
  two counters, the parser's three files, and the per-patch files \<^verbatim>\<open>author-script\<close> and
  \<^verbatim>\<open>final-commit\<close>; the state \<^verbatim>\<open>am_load\<close> reads from it, and the world after the parser has run
  on it again.
\<close>

definition ex_failed :: world where
  "ex_failed =
     ex_world [''0001'' \<mapsto> Reg ''A U Thor'', ''next'' \<mapsto> Reg ''1'', ''last'' \<mapsto> Reg ''1'',
               ''info'' \<mapsto> Reg (ex_info ''A U Thor''), ''msg'' \<mapsto> Reg (''Added line'' @ [LF]),
               ''patch'' \<mapsto> Reg ''diff A U Thor'',
               ''author-script'' \<mapsto>
                 Reg (author_script ''A U Thor'' ''a@u.th'' ''Mon, 1 Jan 2001 00:00:00 +0000''),
               ''final-commit'' \<mapsto> Reg ex_msg]"

definition ex_loaded :: am_state where
  "ex_loaded =
     (am_state_init ''.git/rebase-apply'')
       \<lparr>cur := 1, last_no := 1, author_name := Some ''A U Thor'', author_email := Some ''a@u.th'',
        author_date := Some ''Mon, 1 Jan 2001 00:00:00 +0000'',
        msg := Some ex_msg, msg_len := length ex_msg\<rparr>"

definition ex_reparsed :: world where
  "ex_reparsed =
     snd (run_mailinfo (ex_tools []) (Reg ''A U Thor'') (ex_info ''A U Thor'') ex_failed)"

section \<open>Properties of the file primitives\<close>

lemma read_file_put_file:
  "sdir w = IsDir m \<Longrightarrow> read_file name (put_file name c w) = Found c"
  by (simp add: read_file_def put_file_def)

lemma int_of_size_small: "n < 2 ^ 31 \<Longrightarrow> int_of_size n = int n"
  unfolding int_of_size_def
  by (simp add: signed_of_nat signed_take_bit_int_eq_self)

lemma int_of_size_negative: "int_of_size n < 0 \<longleftrightarrow> 2 ^ 31 \<le> n mod 2 ^ 32"
proof -
  have "int_of_size n < 0 \<longleftrightarrow> bit (int n) 31"
    unfolding int_of_size_def by (simp add: signed_of_nat signed_take_bit_negative_iff)
  also have "\<dots> \<longleftrightarrow> bit n 31" by (simp add: bit_of_nat_iff_bit)
  also have "\<dots> \<longleftrightarrow> 2 ^ 31 \<le> n mod 2 ^ 32"
  proof -
    have "n mod 2 ^ 32 = n mod 2 ^ 31 + 2 ^ 31 * of_bool (bit n 31)"
      using take_bit_Suc_from_most[of 31 n] by (simp add: take_bit_eq_mod)
    moreover have "n mod 2 ^ 31 < 2 ^ 31" by simp
    ultimately show ?thesis by (cases "bit n 31") simp_all
  qed
  finally show ?thesis .
qed

lemma read_state_file_reg:
  "sdir w = IsDir m \<Longrightarrow> m file = Some (Reg c) \<Longrightarrow>
     read_state_file file trim w =
       Inr (int_of_size (length (if trim then strbuf_trim c else c)),
            if trim then strbuf_trim c else c)"
  by (simp add: read_state_file_def read_file_def Let_def)



section \<open>The commit message file is not truncated\<close>

text \<open>
  Claim C10. \<^verbatim>\<open>write_commit_msg\<close> opens \<^verbatim>\<open>final-commit\<close> without \<^verbatim>\<open>O_TRUNC\<close>. In a session
  directory with no \<^verbatim>\<open>final-commit\<close> the file it leaves is exactly the \<^verbatim>\<open>msg_len\<close> bytes
  of the message; where a \<^verbatim>\<open>final-commit\<close> longer than \<^verbatim>\<open>msg_len\<close> exists, the file it
  leaves is the new message followed by the old bytes from offset \<^verbatim>\<open>msg_len\<close> on.
\<close>

theorem write_commit_msg_no_truncate:
  assumes "sdir w = IsDir m" and "msg state = Some mtext" and "msg_len state \<le> length mtext"
  shows "(m ''final-commit'' = None \<longrightarrow>
            (\<exists>w'. write_commit_msg state w = Inr w' \<and>
                  read_file ''final-commit'' w' = Found (take (msg_len state) mtext))) \<and>
         (\<forall>old. m ''final-commit'' = Some (Reg old) \<and> msg_len state < length old \<longrightarrow>
            (\<exists>w'. write_commit_msg state w = Inr w' \<and>
                  read_file ''final-commit'' w' =
                    Found (take (msg_len state) mtext @ drop (msg_len state) old)))"
  using assms
  by (auto simp: write_commit_msg_def open_creat_def pwrite_def read_file_put_file min_def)

theorem write_commit_msg_no_truncate_witness:
  "(\<exists>w'. write_commit_msg (ex_state\<lparr>msg := Some ''new'', msg_len := 3\<rparr>) (ex_world Map.empty)
           = Inr w' \<and>
         read_file ''final-commit'' w' = Found ''new'') \<and>
   (\<exists>w'. write_commit_msg (ex_state\<lparr>msg := Some ''new'', msg_len := 3\<rparr>)
            (ex_world [''final-commit'' \<mapsto> Reg ''old message'']) = Inr w' \<and>
         read_file ''final-commit'' w' = Found ''new message'')"
  using write_commit_msg_no_truncate [of "ex_world Map.empty" Map.empty
          "ex_state\<lparr>msg := Some ''new'', msg_len := 3\<rparr>" "''new''"]
        write_commit_msg_no_truncate [of "ex_world [''final-commit'' \<mapsto> Reg ''old message'']"
          "[''final-commit'' \<mapsto> Reg ''old message'']"
          "ex_state\<lparr>msg := Some ''new'', msg_len := 3\<rparr>" "''new''"]
  by (simp add: ex_world_def ex_state_def am_state_init_def)

section \<open>Properties of C strings, line reading and quoting\<close>

lemma cstr_id: "NUL \<notin> set s \<Longrightarrow> cstr s = s"
  by (auto simp: cstr_def takeWhile_eq_all_conv)

lemma cstr_no_NUL: "NUL \<notin> set (cstr s)"
  by (auto simp: cstr_def dest: set_takeWhileD)

lemma skip_prefix_append: "skip_prefix (p @ s) p = Some s"
  by (induction p) auto

lemma skip_prefix_SomeD: "skip_prefix s p = Some r \<Longrightarrow> s = p @ r"
  by (induction s p rule: skip_prefix.induct) (auto split: if_splits)

lemma sq_escape_SQ: "sq_escape SQ = [SQ, BSL, SQ, SQ]"
  by (simp add: sq_escape_def)

lemma sq_escape_other: "c \<noteq> SQ \<Longrightarrow> sq_escape c = [c]"
  by (simp add: sq_escape_def)

lemma sq_body_escape: "sq_body (concat (map sq_escape s) @ [SQ]) = Some s"
  by (induction s) (auto simp: sq_escape_def)

lemma sq_dequote_quote: "sq_dequote (sq_quote_buf s) = Some s"
  by (simp add: sq_dequote_def sq_quote_buf_def sq_body_escape)

lemma sq_body_SomeD: "sq_body q = Some v \<Longrightarrow> q = concat (map sq_escape v) @ [SQ]"
proof (induction q arbitrary: v rule: sq_body.induct)
  case 1
  then show ?case by simp
next
  case (2 c cs)
  show ?case
  proof (cases "c = SQ")
    case False
    with "2.prems" obtain v' where v': "sq_body cs = Some v'" "v = c # v'"
      by auto
    with "2.IH"(1)[OF False v'(1)] False show ?thesis
      by (simp add: sq_escape_other)
  next
    case True
    show ?thesis
    proof (cases cs)
      case Nil
      with True "2.prems" show ?thesis by simp
    next
      case (Cons c1 r1)
      with True "2.prems" obtain rest v' where
        cs: "cs = BSL # SQ # SQ # rest" and v': "sq_body rest = Some v'" "v = SQ # v'"
        by (auto split: list.splits if_splits)
      from "2.IH"(2)[of BSL "SQ # SQ # rest" SQ "SQ # rest" SQ rest v'] True cs v'
      have "rest = concat (map sq_escape v') @ [SQ]" by simp
      with True cs v' show ?thesis by (simp add: sq_escape_SQ)
    qed
  qed
qed

lemma sq_dequote_SomeD: "sq_dequote q = Some v \<Longrightarrow> q = sq_quote_buf v"
  by (auto simp: sq_dequote_def sq_quote_buf_def split: list.splits if_splits dest: sq_body_SomeD)

lemma set_sq_quote_buf: "set (sq_quote_buf v) \<subseteq> insert SQ (insert BSL (set v))"
  by (auto simp: sq_quote_buf_def sq_escape_def split: if_splits)

lemma set_sq_quote_buf_sup: "set v \<subseteq> set (sq_quote_buf v)"
  by (auto simp: sq_quote_buf_def sq_escape_def)

lemma strbuf_getwholeline_line:
  assumes "LF \<notin> set l"
  shows "strbuf_getwholeline (l @ LF # rest) = Some (l @ [LF], rest)"
proof -
  from assms have d: "dropWhile (\<lambda>c. c \<noteq> LF) (l @ LF # rest) = LF # rest"
    by (induction l) auto
  from assms have t: "takeWhile (\<lambda>c. c \<noteq> LF) (l @ LF # rest) = l"
    by (induction l) auto
  show ?thesis by (simp add: strbuf_getwholeline_def d t)
qed

lemma strbuf_getline_line:
  "LF \<notin> set l \<Longrightarrow> strbuf_getline (l @ LF # rest) = Some (l, rest)"
  by (simp add: strbuf_getline_def strbuf_getwholeline_line)

lemma strbuf_getwholeline_SomeD:
  assumes "strbuf_getwholeline fp = Some (sb, rest)"
  shows "(\<exists>l. LF \<notin> set l \<and> sb = l @ [LF] \<and> fp = l @ LF # rest) \<or>
         (LF \<notin> set sb \<and> fp = sb \<and> rest = [] \<and> sb \<noteq> [])"
proof -
  have ne: "fp \<noteq> []"
  proof
    assume "fp = []"
    with assms show False by (simp add: strbuf_getwholeline_def)
  qed
  show ?thesis
  proof (cases "dropWhile (\<lambda>c. c \<noteq> LF) fp")
    case Nil
    have "strbuf_getwholeline fp = Some (fp, [])"
      unfolding strbuf_getwholeline_def Nil using ne by simp
    with assms have eq: "sb = fp" "rest = []" by simp_all
    from Nil have "LF \<notin> set fp" by (auto simp: dropWhile_eq_Nil_conv)
    with eq ne show ?thesis by simp
  next
    case (Cons x xs)
    define l where "l = takeWhile (\<lambda>c. c \<noteq> LF) fp"
    from Cons have x: "x = LF" using hd_dropWhile[of "\<lambda>c. c \<noteq> LF" fp] by auto
    have "l @ dropWhile (\<lambda>c. c \<noteq> LF) fp = fp"
      unfolding l_def by (rule takeWhile_dropWhile_id)
    then have fp: "fp = l @ LF # xs" unfolding Cons x by simp
    have nl: "LF \<notin> set l"
      by (auto simp: l_def dest: set_takeWhileD)
    have "strbuf_getwholeline fp = Some (l @ [LF], xs)"
      unfolding strbuf_getwholeline_def Cons l_def using ne by simp
    with assms have "sb = l @ [LF]" "rest = xs" by simp_all
    with fp nl have "LF \<notin> set l \<and> sb = l @ [LF] \<and> fp = l @ LF # rest" by simp
    then show ?thesis by (intro disjI1 exI)
  qed
qed

lemma strbuf_getline_SomeD:
  assumes "strbuf_getline fp = Some (sb, rest)"
  shows "LF \<notin> set sb \<and> (fp = sb @ LF # rest \<or> (fp = sb \<and> rest = [] \<and> sb \<noteq> []))"
proof (cases "strbuf_getwholeline fp")
  case None
  with assms show ?thesis by (simp add: strbuf_getline_def)
next
  case (Some p)
  obtain sb0 r0 where p: "p = (sb0, r0)" by (cases p)
  from Some p have g: "strbuf_getwholeline fp = Some (sb0, r0)" by simp
  from strbuf_getwholeline_SomeD[OF g] show ?thesis
  proof
    assume "\<exists>l. LF \<notin> set l \<and> sb0 = l @ [LF] \<and> fp = l @ LF # r0"
    then obtain l where l: "LF \<notin> set l" "sb0 = l @ [LF]" "fp = l @ LF # r0" by blast
    from assms have "sb = l \<and> rest = r0"
      unfolding strbuf_getline_def g l(2) by simp
    with l(1,3) show ?thesis by blast
  next
    assume a: "LF \<notin> set sb0 \<and> fp = sb0 \<and> r0 = [] \<and> sb0 \<noteq> []"
    then have "last sb0 \<noteq> LF" by (metis last_in_set)
    with assms have "sb = sb0 \<and> rest = r0"
      unfolding strbuf_getline_def g by simp
    with a show ?thesis by blast
  qed
qed

lemma read_shell_var_line:
  assumes v: "NUL \<notin> set v" "LF \<notin> set v" and key: "NUL \<notin> set key" "LF \<notin> set key"
  shows "read_shell_var (key @ ''='' @ sq_quote_buf v @ LF # rest) key = (Some v, rest)"
proof -
  define l where "l = key @ ''='' @ sq_quote_buf v"
  from v key set_sq_quote_buf[of v] have l: "LF \<notin> set l" "NUL \<notin> set l"
    by (auto simp: l_def)
  have "strbuf_getline (l @ LF # rest) = Some (l, rest)"
    using l(1) by (rule strbuf_getline_line)
  moreover have "cstr l = l" using l(2) by (rule cstr_id)
  moreover have "skip_prefix l key = Some (''='' @ sq_quote_buf v)"
    unfolding l_def by (rule skip_prefix_append)
  moreover have "skip_prefix (''='' @ sq_quote_buf v) ''='' = Some (sq_quote_buf v)"
    by (rule skip_prefix_append)
  ultimately have "read_shell_var (l @ LF # rest) key = (Some v, rest)"
    by (simp add: read_shell_var_def sq_dequote_quote)
  then show ?thesis by (simp add: l_def)
qed

lemma read_shell_var_SomeD:
  assumes r: "read_shell_var fp key = (Some v, rest)" and nul: "NUL \<notin> set fp"
  shows "LF \<notin> set v \<and> NUL \<notin> set v \<and> NUL \<notin> set rest \<and>
         (fp = key @ ''='' @ sq_quote_buf v @ LF # rest \<or>
          (fp = key @ ''='' @ sq_quote_buf v \<and> rest = []))"
proof (cases "strbuf_getline fp")
  case None
  with r show ?thesis by (simp add: read_shell_var_def)
next
  case (Some p)
  obtain sb fp1 where p: "p = (sb, fp1)" by (cases p)
  from Some p have g: "strbuf_getline fp = Some (sb, fp1)" by simp
  from strbuf_getline_SomeD[OF g]
  have sb: "LF \<notin> set sb" and shape: "fp = sb @ LF # fp1 \<or> (fp = sb \<and> fp1 = [] \<and> sb \<noteq> [])"
    by blast+
  from shape nul have nsb: "NUL \<notin> set sb" and nrest: "NUL \<notin> set fp1" by auto
  then have c: "cstr sb = sb" by (simp add: cstr_id)
  from r g c obtain str where s1: "skip_prefix sb key = Some str"
    by (cases "skip_prefix sb key") (auto simp: read_shell_var_def)
  from r g c s1 obtain str1 where s2: "skip_prefix str ''='' = Some str1"
    by (cases "skip_prefix str ''=''") (auto simp: read_shell_var_def)
  from r g c s1 s2 have d: "sq_dequote str1 = Some v" and rest: "rest = fp1"
    by (auto simp: read_shell_var_def)
  from skip_prefix_SomeD[OF s1] skip_prefix_SomeD[OF s2] sq_dequote_SomeD[OF d]
  have sbeq: "sb = key @ ''='' @ sq_quote_buf v" by simp
  with sb nsb set_sq_quote_buf_sup[of v] have "LF \<notin> set v" "NUL \<notin> set v" by auto
  with shape sbeq rest nrest show ?thesis by auto
qed

lemma read_shell_var_rest_NUL:
  assumes "read_shell_var fp key = (x, rest)" and "NUL \<notin> set fp"
  shows "NUL \<notin> set rest"
proof (cases "strbuf_getline fp")
  case None
  with assms show ?thesis by (simp add: read_shell_var_def)
next
  case (Some p)
  obtain sb fp1 where p: "p = (sb, fp1)" by (cases p)
  from Some p have g: "strbuf_getline fp = Some (sb, fp1)" by simp
  from strbuf_getline_SomeD[OF g] assms(2) have "NUL \<notin> set fp1" by auto
  moreover from assms(1) g have "rest = fp1"
    by (auto simp: read_shell_var_def split: option.splits)
  ultimately show ?thesis by simp
qed

section \<open>The author script round trip\<close>

lemma author_script_no_NUL:
  assumes "NUL \<notin> set n" "NUL \<notin> set e" "NUL \<notin> set d"
  shows "NUL \<notin> set (author_script n e d)"
  using assms set_sq_quote_buf[of n] set_sq_quote_buf[of e] set_sq_quote_buf[of d]
  by (auto simp: author_script_def cstr_id)

lemma read_author_script_of_script:
  assumes dir: "sdir w = IsDir m"
    and fl: "m ''author-script'' = Some (Reg (author_script n e d))"
    and unset: "author_name state = None" "author_email state = None" "author_date state = None"
    and nul: "NUL \<notin> set n" "NUL \<notin> set e" "NUL \<notin> set d"
    and lf: "LF \<notin> set n" "LF \<notin> set e" "LF \<notin> set d"
  shows "read_author_script state w =
           Inr (0, state\<lparr>author_name := Some n, author_email := Some e, author_date := Some d\<rparr>)"
proof -
  define r2 where "r2 = ''GIT_AUTHOR_DATE='' @ sq_quote_buf d @ [LF]"
  define r1 where "r1 = ''GIT_AUTHOR_EMAIL='' @ sq_quote_buf e @ LF # r2"
  have s: "author_script n e d = ''GIT_AUTHOR_NAME'' @ ''='' @ sq_quote_buf n @ LF # r1"
    using nul by (simp add: author_script_def r1_def r2_def cstr_id)
  have v1: "read_shell_var (author_script n e d) ''GIT_AUTHOR_NAME'' = (Some n, r1)"
    unfolding s using nul(1) lf(1) by (intro read_shell_var_line) simp_all
  have "r1 = ''GIT_AUTHOR_EMAIL'' @ ''='' @ sq_quote_buf e @ LF # r2"
    by (simp add: r1_def)
  then have v2: "read_shell_var r1 ''GIT_AUTHOR_EMAIL'' = (Some e, r2)"
    using read_shell_var_line[of e "''GIT_AUTHOR_EMAIL''" r2] nul(2) lf(2) by simp
  have "r2 = ''GIT_AUTHOR_DATE'' @ ''='' @ sq_quote_buf d @ LF # []"
    by (simp add: r2_def)
  then have v3: "read_shell_var r2 ''GIT_AUTHOR_DATE'' = (Some d, [])"
    using read_shell_var_line[of d "''GIT_AUTHOR_DATE''" "[]"] nul(3) lf(3) by simp
  show ?thesis
    by (simp add: read_author_script_def dir fl unset v1 v2 v3)
qed

lemma write_then_read_author_script:
  assumes dir: "sdir w = IsDir m" and nodir: "m ''author-script'' \<noteq> Some Dir"
    and unset: "author_name state = None" "author_email state = None" "author_date state = None"
    and nul: "NUL \<notin> set n" "NUL \<notin> set e" "NUL \<notin> set d"
    and lf: "LF \<notin> set n" "LF \<notin> set e" "LF \<notin> set d"
  shows "\<exists>w'. write_author_script
                 (state\<lparr>author_name := Some n, author_email := Some e, author_date := Some d\<rparr>) w
               = Inr w' \<and>
              read_author_script state w' =
                Inr (0, state\<lparr>author_name := Some n, author_email := Some e,
                            author_date := Some d\<rparr>)"
proof -
  define w' where "w' = put_file ''author-script'' (author_script n e d) w"
  have c: "cstr (author_script n e d) = author_script n e d"
    using author_script_no_NUL[OF nul] by (rule cstr_id)
  from dir nodir have o: "open_creat ''author-script'' w \<noteq> None"
    by (cases "m ''author-script''") (auto simp: open_creat_def split: node.splits)
  then have wr: "write_author_script
                 (state\<lparr>author_name := Some n, author_email := Some e, author_date := Some d\<rparr>) w
               = Inr w'"
    by (auto simp: write_author_script_def write_file_def c w'_def)
  have d': "sdir w' = IsDir (m(''author-script'' \<mapsto> Reg (author_script n e d)))"
    by (simp add: w'_def put_file_def dir)
  have "read_author_script state w' =
          Inr (0, state\<lparr>author_name := Some n, author_email := Some e, author_date := Some d\<rparr>)"
    by (rule read_author_script_of_script[OF d' _ unset nul lf]) simp
  with wr show ?thesis by blast
qed

lemma read_author_script_accepts_only_scripts:
  assumes dir: "sdir w = IsDir m" and fl: "m ''author-script'' = Some (Reg c)"
    and unset: "author_name state = None" "author_email state = None" "author_date state = None"
    and nul: "NUL \<notin> set c"
  shows "(\<exists>state'. read_author_script state w = Inr (- 1, state')) \<or>
         (\<exists>n e d. LF \<notin> set (n @ e @ d) \<and> NUL \<notin> set (n @ e @ d) \<and>
                  (c = author_script n e d \<or> c @ [LF] = author_script n e d))"
proof -
  obtain x1 f1 where r1: "read_shell_var c ''GIT_AUTHOR_NAME'' = (x1, f1)" by fastforce
  obtain x2 f2 where r2: "read_shell_var f1 ''GIT_AUTHOR_EMAIL'' = (x2, f2)" by fastforce
  obtain x3 f3 where r3: "read_shell_var f2 ''GIT_AUTHOR_DATE'' = (x3, f3)" by fastforce
  show ?thesis
  proof (cases "x1 = None \<or> x2 = None \<or> x3 = None \<or> f3 \<noteq> []")
    case True
    then have "\<exists>state'. read_author_script state w = Inr (- 1, state')"
      by (auto simp: read_author_script_def Let_def dir fl unset r1 r2 r3 split: option.splits)
    then show ?thesis ..
  next
    case False
    then obtain n e d where x: "x1 = Some n" "x2 = Some e" "x3 = Some d" and f3: "f3 = []"
      by auto
    from read_shell_var_SomeD[OF r1[unfolded x] nul]
    have n: "LF \<notin> set n" "NUL \<notin> set n" "NUL \<notin> set f1"
      and s1: "c = ''GIT_AUTHOR_NAME'' @ ''='' @ sq_quote_buf n @ LF # f1 \<or>
               (c = ''GIT_AUTHOR_NAME'' @ ''='' @ sq_quote_buf n \<and> f1 = [])"
      by blast+
    have f1ne: "f1 \<noteq> []"
    proof
      assume "f1 = []"
      with r2 x(2) show False by (simp add: read_shell_var_def strbuf_getline_def strbuf_getwholeline_def)
    qed
    from read_shell_var_SomeD[OF r2[unfolded x] n(3)]
    have e: "LF \<notin> set e" "NUL \<notin> set e" "NUL \<notin> set f2"
      and s2: "f1 = ''GIT_AUTHOR_EMAIL'' @ ''='' @ sq_quote_buf e @ LF # f2 \<or>
               (f1 = ''GIT_AUTHOR_EMAIL'' @ ''='' @ sq_quote_buf e \<and> f2 = [])"
      by blast+
    have f2ne: "f2 \<noteq> []"
    proof
      assume "f2 = []"
      with r3 x(3) show False by (simp add: read_shell_var_def strbuf_getline_def strbuf_getwholeline_def)
    qed
    from read_shell_var_SomeD[OF r3[unfolded x f3] e(3)]
    have d: "LF \<notin> set d" "NUL \<notin> set d"
      and s3: "f2 = ''GIT_AUTHOR_DATE'' @ ''='' @ sq_quote_buf d @ [LF] \<or>
               f2 = ''GIT_AUTHOR_DATE'' @ ''='' @ sq_quote_buf d"
      by auto
    from s1 f1ne have c1: "c = ''GIT_AUTHOR_NAME='' @ sq_quote_buf n @ LF # f1" by auto
    from s2 f2ne have c2: "f1 = ''GIT_AUTHOR_EMAIL='' @ sq_quote_buf e @ LF # f2" by auto
    have a: "author_script n e d =
               ''GIT_AUTHOR_NAME='' @ sq_quote_buf n @ LF #
               ''GIT_AUTHOR_EMAIL='' @ sq_quote_buf e @ LF #
               ''GIT_AUTHOR_DATE='' @ sq_quote_buf d @ [LF]"
      using n(2) e(2) d(2) by (simp add: author_script_def cstr_id)
    from s3 have "c = author_script n e d \<or> c @ [LF] = author_script n e d"
      unfolding a c1 c2 by auto
    with n(1,2) e(1,2) d have "LF \<notin> set (n @ e @ d) \<and> NUL \<notin> set (n @ e @ d) \<and>
        (c = author_script n e d \<or> c @ [LF] = author_script n e d)"
      by simp
    then show ?thesis by blast
  qed
qed

lemma takeWhile_until: "x \<notin> set p \<Longrightarrow> takeWhile (\<lambda>c. c \<noteq> x) (p @ x # r) = p"
  by (induction p) auto

lemma author_script_first_line:
  assumes "LF \<notin> set n"
  shows "takeWhile (\<lambda>c. c \<noteq> LF) (author_script n e d) = ''GIT_AUTHOR_NAME='' @ sq_quote_buf (cstr n)"
proof -
  define p where "p = ''GIT_AUTHOR_NAME='' @ sq_quote_buf (cstr n)"
  define r where "r = ''GIT_AUTHOR_EMAIL='' @ sq_quote_buf (cstr e) @ [LF] @
                ''GIT_AUTHOR_DATE='' @ sq_quote_buf (cstr d) @ [LF]"
  have "LF \<notin> set (cstr n)" using assms by (auto simp: cstr_def dest: set_takeWhileD)
  with set_sq_quote_buf[of "cstr n"] have "LF \<notin> set (sq_quote_buf (cstr n))" by auto
  then have q: "LF \<notin> set p" by (simp add: p_def)
  have "author_script n e d = p @ LF # r"
    by (simp add: author_script_def p_def r_def)
  with takeWhile_until[OF q, of r] show ?thesis by (simp add: p_def)
qed

lemma two_line_script_differs: "\<forall>n e d. LF \<notin> set (n @ e @ d) \<and> NUL \<notin> set (n @ e @ d) \<longrightarrow>
       author_script [CHR ''a'', LF, CHR ''b''] ''e'' ''d'' \<noteq> author_script n e d \<and>
       author_script [CHR ''a'', LF, CHR ''b''] ''e'' ''d'' @ [LF] \<noteq> author_script n e d"
proof (intro allI impI)
  fix n e d :: string
  let ?c = "author_script [CHR ''a'', LF, CHR ''b''] ''e'' ''d''"
  assume a: "LF \<notin> set (n @ e @ d) \<and> NUL \<notin> set (n @ e @ d)"
  then have fl: "takeWhile (\<lambda>c. c \<noteq> LF) (author_script n e d) =
                   ''GIT_AUTHOR_NAME='' @ sq_quote_buf (cstr n)"
    by (simp add: author_script_first_line)
  have l: "takeWhile (\<lambda>c. c \<noteq> LF) ?c = ''GIT_AUTHOR_NAME='' @ [SQ, CHR ''a'']"
    "takeWhile (\<lambda>c. c \<noteq> LF) (?c @ [LF]) = ''GIT_AUTHOR_NAME='' @ [SQ, CHR ''a'']"
    by (simp_all add: author_script_def sq_quote_buf_def sq_escape_def cstr_def)
  have q: "last (sq_quote_buf (cstr n)) = SQ" by (simp add: sq_quote_buf_def)
  have ne: "sq_quote_buf (cstr n) \<noteq> [SQ, CHR ''a'']"
  proof
    assume "sq_quote_buf (cstr n) = [SQ, CHR ''a'']"
    with q show False by simp
  qed
  show "?c \<noteq> author_script n e d \<and> ?c @ [LF] \<noteq> author_script n e d"
  proof (intro conjI notI)
    assume "?c = author_script n e d"
    then have "takeWhile (\<lambda>c. c \<noteq> LF) ?c = takeWhile (\<lambda>c. c \<noteq> LF) (author_script n e d)"
      by (rule arg_cong)
    with fl l(1) ne show False by simp
  next
    assume "?c @ [LF] = author_script n e d"
    then have "takeWhile (\<lambda>c. c \<noteq> LF) (?c @ [LF]) = takeWhile (\<lambda>c. c \<noteq> LF) (author_script n e d)"
      by (rule arg_cong)
    with fl l(2) ne show False by simp
  qed
qed

text \<open>
  Claim C3, as amended. (a) For every name, email and date with no NUL and no newline
  byte, reading back the file that \<^verbatim>\<open>write_author_script\<close> wrote gives result 0 and
  exactly the three values. (b) For every \<^verbatim>\<open>author-script\<close> file with no NUL byte that is
  not the three lines \<^verbatim>\<open>KEY='value'\<close> written for some values with no NUL and no newline
  byte, with or without the final newline, \<^verbatim>\<open>read_author_script\<close> returns -1: a script whose
  value spans two lines is among the files rejected.
\<close>

theorem author_script_round_trip:
  assumes dir: "sdir w = IsDir m"
    and unset: "author_name state = None" "author_email state = None" "author_date state = None"
  shows "(\<forall>n e d. NUL \<notin> set (n @ e @ d) \<and> LF \<notin> set (n @ e @ d) \<and>
                  m ''author-script'' \<noteq> Some Dir \<longrightarrow>
            (\<exists>w'. write_author_script
                     (state\<lparr>author_name := Some n, author_email := Some e,
                            author_date := Some d\<rparr>) w = Inr w' \<and>
                  read_author_script state w' =
                    Inr (0, state\<lparr>author_name := Some n, author_email := Some e,
                                author_date := Some d\<rparr>))) \<and>
         (\<forall>c. m ''author-script'' = Some (Reg c) \<and> NUL \<notin> set c \<and>
              (\<forall>n e d. LF \<notin> set (n @ e @ d) \<and> NUL \<notin> set (n @ e @ d) \<longrightarrow>
                 c \<noteq> author_script n e d \<and> c @ [LF] \<noteq> author_script n e d) \<longrightarrow>
            (\<exists>state'. read_author_script state w = Inr (- 1, state')))"
proof (intro conjI allI impI)
  fix n e d
  assume "NUL \<notin> set (n @ e @ d) \<and> LF \<notin> set (n @ e @ d) \<and> m ''author-script'' \<noteq> Some Dir"
  then show "\<exists>w'. write_author_script
                     (state\<lparr>author_name := Some n, author_email := Some e,
                            author_date := Some d\<rparr>) w = Inr w' \<and>
                  read_author_script state w' =
                    Inr (0, state\<lparr>author_name := Some n, author_email := Some e,
                                author_date := Some d\<rparr>)"
    using write_then_read_author_script[OF dir _ unset, of n e d] by simp
next
  fix c
  assume a: "m ''author-script'' = Some (Reg c) \<and> NUL \<notin> set c \<and>
              (\<forall>n e d. LF \<notin> set (n @ e @ d) \<and> NUL \<notin> set (n @ e @ d) \<longrightarrow>
                 c \<noteq> author_script n e d \<and> c @ [LF] \<noteq> author_script n e d)"
  then show "\<exists>state'. read_author_script state w = Inr (- 1, state')"
    using read_author_script_accepts_only_scripts[OF dir _ unset, of c] by blast
qed

theorem author_script_round_trip_witness:
  "(\<exists>w'. write_author_script
            (ex_state\<lparr>author_name := Some [CHR ''O'', SQ, CHR ''B''], author_email := Some ''o@b.ie'',
                      author_date := Some ''Mon, 1 Jan 2001 00:00:00 +0000''\<rparr>)
            (ex_world [''author-script'' \<mapsto> Reg ''GIT_AUTHOR_NAME=x'']) = Inr w' \<and>
         read_author_script ex_state w' =
           Inr (0, ex_state\<lparr>author_name := Some [CHR ''O'', SQ, CHR ''B''],
                            author_email := Some ''o@b.ie'',
                            author_date := Some ''Mon, 1 Jan 2001 00:00:00 +0000''\<rparr>)) \<and>
   (\<exists>state'. read_author_script ex_state (ex_world [''author-script'' \<mapsto> Reg ''GIT_AUTHOR_NAME=x''])
      = Inr (- 1, state')) \<and>
   (\<exists>state'. read_author_script ex_state
      (ex_world [''author-script'' \<mapsto> Reg (author_script [CHR ''a'', LF, CHR ''b''] ''e'' ''d'')])
      = Inr (- 1, state'))"
proof -
  let ?c = "author_script [CHR ''a'', LF, CHR ''b''] ''e'' ''d''"
  have d: "sdir (ex_world [''author-script'' \<mapsto> Reg ''GIT_AUTHOR_NAME=x'']) =
             IsDir [''author-script'' \<mapsto> Reg ''GIT_AUTHOR_NAME=x'']"
    "sdir (ex_world [''author-script'' \<mapsto> Reg ?c]) = IsDir [''author-script'' \<mapsto> Reg ?c]"
    by (simp_all add: ex_world_def)
  have u: "author_name ex_state = None" "author_email ex_state = None"
    "author_date ex_state = None"
    by (simp_all add: ex_state_def am_state_init_def)
  have nf: "\<forall>n e d. ''GIT_AUTHOR_NAME=x'' \<noteq> author_script n e d \<and>
                   ''GIT_AUTHOR_NAME=x'' @ [LF] \<noteq> author_script n e d"
    by (simp add: author_script_def sq_quote_buf_def)
  have nul: "NUL \<notin> set ?c"
    by (simp add: author_script_def sq_quote_buf_def sq_escape_def cstr_def)
  from author_script_round_trip[OF d(1) u] nf
  have 1: "(\<exists>w'. write_author_script
            (ex_state\<lparr>author_name := Some [CHR ''O'', SQ, CHR ''B''], author_email := Some ''o@b.ie'',
                      author_date := Some ''Mon, 1 Jan 2001 00:00:00 +0000''\<rparr>)
            (ex_world [''author-script'' \<mapsto> Reg ''GIT_AUTHOR_NAME=x'']) = Inr w' \<and>
         read_author_script ex_state w' =
           Inr (0, ex_state\<lparr>author_name := Some [CHR ''O'', SQ, CHR ''B''],
                            author_email := Some ''o@b.ie'',
                            author_date := Some ''Mon, 1 Jan 2001 00:00:00 +0000''\<rparr>)) \<and>
   (\<exists>state'. read_author_script ex_state (ex_world [''author-script'' \<mapsto> Reg ''GIT_AUTHOR_NAME=x''])
      = Inr (- 1, state'))"
    by simp
  from author_script_round_trip[OF d(2) u] nul two_line_script_differs
  have 2: "\<exists>state'. read_author_script ex_state (ex_world [''author-script'' \<mapsto> Reg ?c])
      = Inr (- 1, state')"
    by simp
  from 1 2 show ?thesis by blast
qed

text \<open>
  The claim as first stated fails twice. A name with a newline in it (and no NUL) is
  written over two lines and read back as a parse error. A file with a NUL byte and
  further bytes after the closing quote of the first line is accepted, the line being
  checked as a C string.
\<close>

theorem author_script_round_trip_counterexample:
  "(\<exists>w'. write_author_script
            (ex_state\<lparr>author_name := Some [CHR ''a'', LF, CHR ''b''], author_email := Some ''e'',
                      author_date := Some ''d''\<rparr>)
            (ex_world Map.empty) = Inr w' \<and>
         read_author_script ex_state w' = Inr (- 1, ex_state)) \<and>
   read_author_script ex_state
     (ex_world [''author-script'' \<mapsto>
        Reg (''GIT_AUTHOR_NAME='' @ [SQ, CHR ''a'', SQ, NUL] @ ''junk'' @ [LF] @
             ''GIT_AUTHOR_EMAIL='' @ [SQ, CHR ''e'', SQ, LF] @
             ''GIT_AUTHOR_DATE='' @ [SQ, CHR ''d'', SQ, LF])])
     = Inr (0, ex_state\<lparr>author_name := Some ''a'', author_email := Some ''e'',
                        author_date := Some ''d''\<rparr>)"
  by (simp add: write_author_script_def write_file_def open_creat_def put_file_def
      read_author_script_def read_shell_var_def strbuf_getline_def strbuf_getwholeline_def
      author_script_def sq_quote_buf_def sq_escape_def sq_dequote_def cstr_def
      ex_world_def ex_state_def am_state_init_def)

section \<open>Loading does not check the patch numbers\<close>


lemma set_strbuf_trim: "set (strbuf_trim s) \<subseteq> set s"
proof -
  have "set (strbuf_trim s) \<subseteq> set (rev (dropWhile git_isspace (rev s)))"
    unfolding strbuf_trim_def by (rule set_dropWhileD[THEN subsetI])
  also have "\<dots> \<subseteq> set s" using set_dropWhileD[of _ git_isspace "rev s"] by auto
  finally show ?thesis .
qed

lemma starts_number_digit:
  assumes "starts_number (strbuf_trim s)"
  shows "\<exists>c\<in>set s. isdigit c"
proof -
  define t where "t = dropWhile c_isspace (cstr (strbuf_trim s))"
  have "set t \<subseteq> set (strbuf_trim s)"
    unfolding t_def cstr_def by (auto dest: set_dropWhileD set_takeWhileD)
  with set_strbuf_trim[of s] have sub: "set t \<subseteq> set s" by blast
  from assms have "\<exists>c\<in>set t. isdigit c"
    unfolding starts_number_def t_def[symmetric]
    by (cases t) (auto split: if_splits simp: neq_Nil_conv)
  with sub show ?thesis by blast
qed














section \<open>Format detection checks the header block from the start of the file\<close>

lemma is_mail_loop_lines:
  "is_mail_loop fp = (if all_headers (crlf_lines fp) then 1 else 0)"
proof (induction fp rule: is_mail_loop.induct)
  case (1 fp)
  show ?case
  proof (cases "strbuf_getline_crlf fp")
    case None
    then show ?thesis
      by (simp add: is_mail_loop.simps[of fp] crlf_lines.simps[of fp] all_headers_def header_block_def)
  next
    case (Some p)
    obtain sb rest where p: "p = (sb, rest)" by (cases p)
    note g = Some[unfolded p]
    show ?thesis
    proof (cases "sb = []")
      case True
      with g show ?thesis
        by (simp add: is_mail_loop.simps[of fp] crlf_lines.simps[of fp] all_headers_def header_block_def)
    next
      case False
      show ?thesis
      proof (cases "hd sb = TAB \<or> hd sb = SPC")
        case True
        with "1.IH"(1)[OF g refl False] g False show ?thesis
          by (simp add: is_mail_loop.simps[of fp] crlf_lines.simps[of fp] all_headers_def
              header_block_def indented_def)
      next
        case ni: False
        show ?thesis
        proof (cases "header_regex_match sb")
          case True
          with "1.IH"(2)[OF g refl False ni] g False ni show ?thesis
            by (simp add: is_mail_loop.simps[of fp] crlf_lines.simps[of fp] all_headers_def
                header_block_def indented_def)
        next
          case nm: False
          with g False ni show ?thesis
            by (simp add: is_mail_loop.simps[of fp] crlf_lines.simps[of fp] all_headers_def
                header_block_def indented_def)
        qed
      qed
    qed
  qed
qed

lemma first_nonblank_line_lines:
  "first_nonblank_line fp =
     (case dropWhile (\<lambda>l. l = []) (crlf_lines fp) of [] \<Rightarrow> [] | l # _ \<Rightarrow> l)"
proof (induction fp rule: first_nonblank_line.induct)
  case (1 fp)
  show ?case
  proof (cases "strbuf_getline_crlf fp")
    case None
    then show ?thesis
      by (simp add: first_nonblank_line.simps[of fp] crlf_lines.simps[of fp])
  next
    case (Some p)
    obtain sb rest where p: "p = (sb, rest)" by (cases p)
    note g = Some[unfolded p]
    show ?thesis
    proof (cases "sb = []")
      case True
      with "1.IH"[OF g refl] g show ?thesis
        by (simp add: first_nonblank_line.simps[of fp] crlf_lines.simps[of fp])
    next
      case False
      with g show ?thesis
        by (simp add: first_nonblank_line.simps[of fp] crlf_lines.simps[of fp])
    qed
  qed
qed

lemma header_regex_match_iff:
  "header_regex_match buf \<longleftrightarrow>
     (\<exists>p r. cstr buf = p @ CHR '':'' # r \<and> p \<noteq> [] \<and> (\<forall>c\<in>set p. in_header_class c))"
proof
  assume m: "header_regex_match buf"
  then obtain c r where d: "dropWhile in_header_class (cstr buf) = c # r" and c: "c = CHR '':''"
    by (auto simp: header_regex_match_def split: list.splits)
  have "cstr buf = takeWhile in_header_class (cstr buf) @ CHR '':'' # r"
    using takeWhile_dropWhile_id[of in_header_class "cstr buf"] d c by simp
  moreover have "\<forall>c\<in>set (takeWhile in_header_class (cstr buf)). in_header_class c"
    by (auto dest: set_takeWhileD)
  moreover from m have "takeWhile in_header_class (cstr buf) \<noteq> []"
    by (simp add: header_regex_match_def)
  ultimately show "\<exists>p r. cstr buf = p @ CHR '':'' # r \<and> p \<noteq> [] \<and> (\<forall>c\<in>set p. in_header_class c)"
    by blast
next
  assume "\<exists>p r. cstr buf = p @ CHR '':'' # r \<and> p \<noteq> [] \<and> (\<forall>c\<in>set p. in_header_class c)"
  then obtain p r where e: "cstr buf = p @ CHR '':'' # r" and p: "p \<noteq> []"
    and a: "\<forall>c\<in>set p. in_header_class c" by blast
  have nc: "\<not> in_header_class CHR '':''" by (simp add: in_header_class_def)
  from a nc have "takeWhile in_header_class (p @ CHR '':'' # r) = p"
    by (induction p) auto
  moreover from a nc have "dropWhile in_header_class (p @ CHR '':'' # r) = CHR '':'' # r"
    by (induction p) auto
  ultimately show "header_regex_match buf"
    unfolding header_regex_match_def e using p by simp
qed

text \<open>
  Claim C4, as amended. For every input file whose first line is not blank (it is then
  L1) and does not begin with \<^verbatim>\<open>From \<close> or \<^verbatim>\<open>From: \<close>, \<^verbatim>\<open>detect_patch_format\<close> answers Mbox if
  and only if every non-indented line from L1 itself up to the first blank line (or the
  end of the file) matches the header regular expression, and Unknown otherwise:
  \<^verbatim>\<open>is_mail\<close> seeks back to the start of the file, so L1 is checked too.
\<close>

theorem detect_patch_format_header_block:
  assumes "paths = p # ps" and "p \<noteq> ''-''" and "ext w p = Some (Reg content)"
    and "crlf_lines content = l1 # ls" and "l1 \<noteq> []"
    and "\<not> starts_with (cstr l1) ''From ''" and "\<not> starts_with (cstr l1) ''From: ''"
  shows "detect_patch_format paths w =
           Inr (if all_headers (l1 # ls) then PATCH_FORMAT_MBOX else PATCH_FORMAT_UNKNOWN)"
proof -
  from assms(4,5) have l1: "first_nonblank_line content = l1"
    by (simp add: first_nonblank_line_lines)
  have "detect_file content =
          (if all_headers (l1 # ls) then PATCH_FORMAT_MBOX else PATCH_FORMAT_UNKNOWN)"
    using assms(4-7) by (simp add: detect_file_def l1 is_mail_def is_mail_loop_lines)
  with assms(1-3) show ?thesis by (simp add: detect_patch_format_def)
qed

lemma ex_garbage_lines:
  "crlf_lines ex_garbage = [''garbage'', ''Subject: x'']"
  by (simp add: ex_garbage_def crlf_lines.simps strbuf_getline_crlf_def strbuf_getwholeline_def)

theorem detect_patch_format_header_block_witness:
  "detect_patch_format [''0001.patch''] (ex_input ex_headers)
     = Inr PATCH_FORMAT_MBOX \<and>
   detect_patch_format [''0001.patch''] (ex_input ex_garbage)
     = Inr PATCH_FORMAT_UNKNOWN"
proof -
  have l: "crlf_lines ex_headers = [''Subject: x'', ''From: a@b'']"
    by (simp add: ex_headers_def crlf_lines.simps strbuf_getline_crlf_def strbuf_getwholeline_def)
  have h1: "all_headers [''Subject: x'', ''From: a@b'']"
    by (simp add: all_headers_def header_block_def header_regex_match_def indented_def
        in_header_class_def cstr_def)
  have h2: "\<not> all_headers [''garbage'', ''Subject: x'']"
    by (simp add: all_headers_def header_block_def header_regex_match_def indented_def
        in_header_class_def cstr_def)
  have 1: "detect_patch_format [''0001.patch''] (ex_input ex_headers)
     = Inr PATCH_FORMAT_MBOX"
    using detect_patch_format_header_block[of "[''0001.patch'']" "''0001.patch''" "[]"
        "ex_input ex_headers"
        ex_headers "''Subject: x''" "[''From: a@b'']"] l h1
    by (simp add: ex_input_def starts_with_def cstr_def)
  have 2: "detect_patch_format [''0001.patch''] (ex_input ex_garbage)
     = Inr PATCH_FORMAT_UNKNOWN"
    using detect_patch_format_header_block[of "[''0001.patch'']" "''0001.patch''" "[]"
        "ex_input ex_garbage"
        ex_garbage "''garbage''" "[''Subject: x'']"]
      ex_garbage_lines h2
    by (simp add: ex_input_def starts_with_def cstr_def)
  from 1 2 show ?thesis by simp
qed

text \<open>
  The claim as first stated looks only at the lines after L1. In the file below L1 is
  \<^verbatim>\<open>garbage\<close>, the only line after it is a header line, and the answer is Unknown.
\<close>

theorem detect_patch_format_after_l1_counterexample:
  "crlf_lines ex_garbage = [''garbage'', ''Subject: x''] \<and>
   first_nonblank_line ex_garbage = ''garbage'' \<and>
   \<not> starts_with ''garbage'' ''From '' \<and> \<not> starts_with ''garbage'' ''From: '' \<and>
   all_headers [''Subject: x''] \<and>
   detect_patch_format [''0001.patch''] (ex_input ex_garbage)
     = Inr PATCH_FORMAT_UNKNOWN"
proof -
  have "first_nonblank_line ex_garbage = ''garbage''"
    by (simp add: first_nonblank_line_lines ex_garbage_lines)
  moreover have "all_headers [''Subject: x'']"
    by (simp add: all_headers_def header_block_def header_regex_match_def indented_def
        in_header_class_def cstr_def)
  moreover have "detect_patch_format [''0001.patch'']
      (ex_input ex_garbage) = Inr PATCH_FORMAT_UNKNOWN"
    by (simp add: detect_patch_format_def ex_input_def detect_file_def first_nonblank_line_lines
        is_mail_def is_mail_loop_lines ex_garbage_lines starts_with_def cstr_def
        all_headers_def header_block_def header_regex_match_def indented_def in_header_class_def)
  ultimately show ?thesis
    by (simp add: ex_garbage_lines starts_with_def)
qed

text \<open>
  Where blank lines precede L1, \<^verbatim>\<open>is_mail\<close> meets a blank line first and accepts the file
  without looking at any line.
\<close>

lemma detect_file_leading_blank_line:
  "detect_file ([LF] @ ''foo'' @ [LF] @ ''bar'' @ [LF]) = PATCH_FORMAT_MBOX"
proof -
  have "crlf_lines ([LF] @ ''foo'' @ [LF] @ ''bar'' @ [LF]) = [[], ''foo'', ''bar'']"
    by (simp add: crlf_lines.simps strbuf_getline_crlf_def strbuf_getwholeline_def)
  then show ?thesis
    by (simp add: detect_file_def first_nonblank_line_lines is_mail_def is_mail_loop_lines
        starts_with_def cstr_def all_headers_def header_block_def)
qed

section \<open>Setup writes \<^verbatim>\<open>next\<close>, then \<^verbatim>\<open>last\<close>\<close>

lemma oplog_tool_write:
  "oplog (tool_write name c w) = oplog w \<or> oplog (tool_write name c w) = oplog w @ [Write name]"
  by (auto simp: tool_write_def put_file_def split: option.splits dirnode.splits)

lemma oplog_tool_writes:
  "\<exists>ops. oplog (foldl (\<lambda>v (name, c). tool_write name c v) w files) = oplog w @ ops \<and>
         set ops \<subseteq> Write ` fst ` set files"
proof (induction files arbitrary: w)
  case Nil
  show ?case by simp
next
  case (Cons f files)
  obtain name c where f: "f = (name, c)" by (cases f)
  from Cons[of "tool_write name c w"] obtain ops where
    ops: "oplog (foldl (\<lambda>v (name, c). tool_write name c v) (tool_write name c w) files) =
            oplog (tool_write name c w) @ ops" "set ops \<subseteq> Write ` fst ` set files"
    by blast
  from oplog_tool_write[of name c w] show ?case
  proof
    assume "oplog (tool_write name c w) = oplog w"
    with ops f show ?thesis by (intro exI[of _ ops]) auto
  next
    assume "oplog (tool_write name c w) = oplog w @ [Write name]"
    with ops f show ?thesis by (intro exI[of _ "Write name # ops"]) auto
  qed
qed

lemma oplog_write_file:
  "write_file name c w = Inr w' \<Longrightarrow> oplog w' = oplog w @ [Write name]"
  by (auto simp: write_file_def put_file_def open_creat_def split: option.splits dirnode.splits)

lemma am_in_progress_needs_next:
  "(\<forall>c. (case sdir v of IsDir m \<Rightarrow> m ''next'' | _ \<Rightarrow> None) \<noteq> Some (Reg c)) \<Longrightarrow>
     am_in_progress state v = 0"
  by (auto simp: am_in_progress_def split: dirnode.splits option.splits node.splits)

lemma am_in_progress_needs_last:
  "(\<forall>c. (case sdir v of IsDir m \<Rightarrow> m ''last'' | _ \<Rightarrow> None) \<noteq> Some (Reg c)) \<Longrightarrow>
     am_in_progress state v = 0"
  by (auto simp: am_in_progress_def split: dirnode.splits option.splits node.splits)

lemma dec_nat_digit: "n < 10 \<Longrightarrow> dec_nat n = [char_of (48 + n)]"
  by (simp add: dec_nat.simps)

lemma ex_printf_1: "printf_d 1 = ''1''"
  by code_simp

lemma ex_printf_2: "printf_d 2 = ''2''"
  by code_simp

lemma ex_strtol_1: "int_of_long (strtol [CHR ''1'', LF]) = 1"
  by (simp add: strtol_def cstr_def c_isspace_def isdigit_def digit_val_def int_of_long_def)

lemma ex_strtol_2: "int_of_long (strtol [CHR ''2'', LF]) = 2"
  by (simp add: strtol_def cstr_def c_isspace_def isdigit_def digit_val_def int_of_long_def)

lemma ex_detect: "detect_patch_format [''0001.patch''] ex_fresh = Inr PATCH_FORMAT_MBOX"
  by (simp add: detect_patch_format_def ex_fresh_def detect_file_def first_nonblank_line.simps
      strbuf_getline_crlf_def strbuf_getwholeline_def starts_with_def cstr_def)

lemma ex_fresh_sel: "sdir ex_fresh = NoEnt" "oplog ex_fresh = []"
  by (simp_all add: ex_fresh_def)

lemma ex_setup:
  "am_setup (ex_tools [(''0001'', ''A U Thor'')]) ex_state PATCH_FORMAT_UNKNOWN [''0001.patch''] ex_fresh =
     Inr (ex_state\<lparr>cur := 1, last_no := 1\<rparr>,
          ex_fresh\<lparr>sdir := IsDir [''0001'' \<mapsto> Reg ''A U Thor'', ''next'' \<mapsto> Reg ''1'',
                                   ''last'' \<mapsto> Reg ''1''],
                  oplog := [Mkdir, Write ''0001'', Write ''next'', Write ''last'']\<rparr>)"
  by (simp add: am_setup_def ex_detect split_mail_def split_mail_mbox_def ex_tools_def
      ex_printf_1 ex_strtol_1 mkdir_def tool_write_def open_creat_def put_file_def write_file_def
      ex_fresh_sel ex_state_def am_state_init_def)

text \<open>
  Claim C2, as amended. A successful \<^verbatim>\<open>am_setup\<close> makes these calls on the session
  directory, in this order: \<^verbatim>\<open>mkdir\<close>, the writes of the splitter's files, the write of
  \<^verbatim>\<open>next\<close>, the write of \<^verbatim>\<open>last\<close>. So \<^verbatim>\<open>next\<close> and \<^verbatim>\<open>last\<close> are the last two files written,
  \<^verbatim>\<open>next\<close> before \<^verbatim>\<open>last\<close>. \<^verbatim>\<open>am_in_progress\<close> answers 0 for every directory in which \<^verbatim>\<open>next\<close>
  is not a regular file, and for every directory in which \<^verbatim>\<open>last\<close> is not one: whatever
  a crash before the write of \<^verbatim>\<open>next\<close> leaves is not taken for a live session.
\<close>

theorem am_setup_writes_next_then_last:
  assumes "am_setup T state patch_format paths w = Inr (state', w')"
  shows "(\<exists>ops. oplog w' = oplog w @ Mkdir # ops @ [Write ''next'', Write ''last''] \<and>
               set ops \<subseteq> Write ` fst ` set (snd (snd (mailsplit T (prec state) paths (mkdir w))))) \<and>
         (\<forall>v. (\<forall>c. (case sdir v of IsDir m \<Rightarrow> m ''next'' | _ \<Rightarrow> None) \<noteq> Some (Reg c)) \<longrightarrow>
              am_in_progress state' v = 0) \<and>
         (\<forall>v. (\<forall>c. (case sdir v of IsDir m \<Rightarrow> m ''last'' | _ \<Rightarrow> None) \<noteq> Some (Reg c)) \<longrightarrow>
              am_in_progress state' v = 0)"
proof (intro conjI allI impI)
  obtain rc last_out files where ms: "mailsplit T (prec state) paths (mkdir w) = (rc, last_out, files)"
    by (cases "mailsplit T (prec state) paths (mkdir w)")
  define w1 where "w1 = foldl (\<lambda>v (name, c). tool_write name c v) (mkdir w) files"
  from oplog_tool_writes[of "mkdir w" files] obtain ops where
    ops: "oplog w1 = oplog (mkdir w) @ ops" "set ops \<subseteq> Write ` fst ` set files"
    unfolding w1_def by blast
  have mk: "oplog (mkdir w) = oplog w @ [Mkdir]"
    by (simp add: mkdir_def Let_def split: dirnode.splits)
  from assms obtain w2 where
    n: "write_file ''next'' (printf_d 1) w1 = Inr w2" and
    l: "write_file ''last'' (printf_d (int_of_long (strtol last_out))) w2 = Inr w'"
    unfolding am_setup_def split_mail_def split_mail_mbox_def ms
    by (auto simp: Let_def w1_def split: sum.splits if_splits patch_format.splits)
  from oplog_write_file[OF n] oplog_write_file[OF l] ops mk
  have "oplog w' = oplog w @ Mkdir # ops @ [Write ''next'', Write ''last'']" by simp
  with ops(2) ms
  show "\<exists>ops. oplog w' = oplog w @ Mkdir # ops @ [Write ''next'', Write ''last''] \<and>
               set ops \<subseteq> Write ` fst ` set (snd (snd (mailsplit T (prec state) paths (mkdir w))))"
    by auto
next
  fix v :: world
  assume "\<forall>c. (case sdir v of IsDir m \<Rightarrow> m ''next'' | _ \<Rightarrow> None) \<noteq> Some (Reg c)"
  then show "am_in_progress state' v = 0" by (rule am_in_progress_needs_next)
next
  fix v :: world
  assume "\<forall>c. (case sdir v of IsDir m \<Rightarrow> m ''last'' | _ \<Rightarrow> None) \<noteq> Some (Reg c)"
  then show "am_in_progress state' v = 0" by (rule am_in_progress_needs_last)
qed

theorem am_setup_writes_next_then_last_witness:
  "(\<exists>state' w'. am_setup (ex_tools [(''0001'', ''A U Thor'')]) ex_state PATCH_FORMAT_UNKNOWN
                   [''0001.patch''] ex_fresh = Inr (state', w') \<and>
       (\<exists>ops. oplog w' = oplog ex_fresh @ Mkdir # ops @ [Write ''next'', Write ''last'']) \<and>
       am_in_progress state' ex_fresh = 0 \<and>
       am_in_progress state' (ex_world [''0001'' \<mapsto> Reg ''A U Thor'', ''next'' \<mapsto> Reg ''1'']) = 0)"
proof -
  have 1: "\<forall>c. (case sdir ex_fresh of IsDir m \<Rightarrow> m ''next'' | _ \<Rightarrow> None) \<noteq> Some (Reg c)"
    by (simp add: ex_fresh_sel)
  have 2: "\<forall>c. (case sdir (ex_world [''0001'' \<mapsto> Reg ''A U Thor'', ''next'' \<mapsto> Reg ''1'']) of
                  IsDir m \<Rightarrow> m ''last'' | _ \<Rightarrow> None) \<noteq> Some (Reg c)"
    by (simp add: ex_world_def)
  from am_setup_writes_next_then_last[OF ex_setup] 1 2 show ?thesis
    unfolding ex_setup by blast
qed

text \<open>
  The claim as first stated has \<^verbatim>\<open>next\<close> written after \<^verbatim>\<open>last\<close>. In this run the last write
  is that of \<^verbatim>\<open>last\<close>.
\<close>

theorem am_setup_next_not_last_counterexample:
  "(\<exists>state' w'. am_setup (ex_tools [(''0001'', ''A U Thor'')]) ex_state PATCH_FORMAT_UNKNOWN
                   [''0001.patch''] ex_fresh = Inr (state', w') \<and>
       oplog w' = [Mkdir, Write ''0001'', Write ''next'', Write ''last''] \<and>
       last (oplog w') \<noteq> Write ''next'')"
  unfolding ex_setup by simp

section \<open>What each step of the loop body changes\<close>

lemma same_repo_refl: "same_repo w w"
  by (simp add: same_repo_def)

lemma same_repo_trans: "same_repo u v \<Longrightarrow> same_repo v w \<Longrightarrow> same_repo u w"
  by (simp add: same_repo_def)

lemma put_file_frame:
  "same_repo (put_file n c w) w" "index (put_file n c w) = index w"
  by (simp_all add: put_file_def same_repo_def split: dirnode.splits)

lemma tool_write_frame:
  "same_repo (tool_write n c w) w" "index (tool_write n c w) = index w"
  by (simp_all add: tool_write_def put_file_def same_repo_def split: dirnode.splits option.splits)

lemma unlink_frame:
  "same_repo (unlink n w) w" "index (unlink n w) = index w"
  by (simp_all add: unlink_def Let_def same_repo_def split: dirnode.splits option.splits node.splits)

lemma print_ln_frame:
  "same_repo (print_ln l w) w" "index (print_ln l w) = index w" "sdir (print_ln l w) = sdir w"
  "oplog (print_ln l w) = oplog w"
  by (simp_all add: print_ln_def same_repo_def)

lemma entry_print_ln: "entry (print_ln l w) n = entry w n"
  by (simp add: entry_def print_ln_def)

lemma entry_put_file_other: "n' \<noteq> n \<Longrightarrow> entry (put_file n c w) n' = entry w n'"
  by (simp add: entry_def put_file_def split: dirnode.splits)

lemma entry_put_file_same: "sdir w = IsDir m \<Longrightarrow> entry (put_file n c w) n = Some (Reg c)"
  by (simp add: entry_def put_file_def)

lemma entry_tool_write_other: "n' \<noteq> n \<Longrightarrow> entry (tool_write n c w) n' = entry w n'"
  by (simp add: tool_write_def entry_put_file_other split: option.splits)

lemma entry_unlink_other: "n' \<noteq> n \<Longrightarrow> entry (unlink n w) n' = entry w n'"
  by (simp add: entry_def unlink_def Let_def split: dirnode.splits option.splits node.splits)

lemma entry_unlink_same: "entry w n \<noteq> Some Dir \<Longrightarrow> entry (unlink n w) n = None"
  by (auto simp: entry_def unlink_def Let_def split: dirnode.splits option.splits node.splits)

lemma oplog_unlink: "oplog (unlink n w) = oplog w @ [Unlink n]"
  by (simp add: unlink_def Let_def split: dirnode.splits option.splits node.splits)

lemma is_dir_put_file: "(\<exists>m. sdir (put_file n c w) = IsDir m) = (\<exists>m. sdir w = IsDir m)"
  by (simp add: put_file_def split: dirnode.splits)

lemma is_dir_tool_write: "(\<exists>m. sdir (tool_write n c w) = IsDir m) = (\<exists>m. sdir w = IsDir m)"
  by (simp add: tool_write_def is_dir_put_file split: option.splits)

lemma is_dir_unlink: "(\<exists>m. sdir (unlink n w) = IsDir m) = (\<exists>m. sdir w = IsDir m)"
  by (simp add: unlink_def Let_def split: dirnode.splits option.splits node.splits)

lemma write_file_frame:
  assumes "write_file n c w = Inr w'"
  shows "same_repo w' w" "index w' = index w" "entry w' n = Some (Reg c)"
    "\<And>n'. n' \<noteq> n \<Longrightarrow> entry w' n' = entry w n'" "\<exists>m. sdir w' = IsDir m"
    "oplog w' = oplog w @ [Write n]"
proof -
  from assms obtain m where m: "sdir w = IsDir m" and w': "w' = put_file n c w"
    by (auto simp: write_file_def open_creat_def split: option.splits dirnode.splits)
  show "same_repo w' w" "index w' = index w" unfolding w' by (rule put_file_frame)+
  show "entry w' n = Some (Reg c)" unfolding w' using m by (rule entry_put_file_same)
  show "\<And>n'. n' \<noteq> n \<Longrightarrow> entry w' n' = entry w n'" unfolding w' by (rule entry_put_file_other)
  show "\<exists>m. sdir w' = IsDir m" unfolding w' using m by (simp add: is_dir_put_file)
  show "oplog w' = oplog w @ [Write n]" unfolding w' using m by (simp add: put_file_def)
qed

lemma write_file_succeeds:
  "sdir w = IsDir m \<Longrightarrow> entry w n \<noteq> Some Dir \<Longrightarrow> \<exists>w'. write_file n c w = Inr w'"
  by (auto simp: write_file_def open_creat_def entry_def split: option.splits node.splits)

lemma run_mailinfo_frame:
  assumes "run_mailinfo T inp old w = (rc, w3)"
  shows "same_repo w3 w" "index w3 = index w"
    "\<And>n. n \<noteq> ''info'' \<Longrightarrow> n \<noteq> ''msg'' \<Longrightarrow> n \<noteq> ''patch'' \<Longrightarrow> entry w3 n = entry w n"
    "(\<exists>m. sdir w3 = IsDir m) = (\<exists>m. sdir w = IsDir m)"
proof -
  obtain r io mf pf where mi: "mailinfo T inp = (r, io, mf, pf)" by (cases "mailinfo T inp")
  define w1 where "w1 = put_file ''info'' (pwrite old io) w"
  define w2 where "w2 = (case mf of None \<Rightarrow> w1 | Some c \<Rightarrow> tool_write ''msg'' c w1)"
  from assms mi have w3: "w3 = (case pf of None \<Rightarrow> w2 | Some c \<Rightarrow> tool_write ''patch'' c w2)"
    unfolding run_mailinfo_def Let_def w1_def w2_def by simp
  have 1: "same_repo w1 w" "index w1 = index w" unfolding w1_def by (rule put_file_frame)+
  have 2: "same_repo w2 w1" "index w2 = index w1"
    unfolding w2_def by (auto simp: tool_write_frame same_repo_refl split: option.splits)
  have 3: "same_repo w3 w2" "index w3 = index w2"
    unfolding w3 by (auto simp: tool_write_frame same_repo_refl split: option.splits)
  from 1 2 3 show "same_repo w3 w" "index w3 = index w"
    by (auto intro: same_repo_trans)
  show "\<And>n. n \<noteq> ''info'' \<Longrightarrow> n \<noteq> ''msg'' \<Longrightarrow> n \<noteq> ''patch'' \<Longrightarrow> entry w3 n = entry w n"
    unfolding w3 w2_def w1_def
    by (auto simp: entry_tool_write_other entry_put_file_other split: option.splits)
  show "(\<exists>m. sdir w3 = IsDir m) = (\<exists>m. sdir w = IsDir m)"
    unfolding w3 w2_def w1_def
    by (auto simp: is_dir_tool_write is_dir_put_file split: option.splits)
qed

lemma open_creat_is_dir: "open_creat n w = Some old \<Longrightarrow> \<exists>m. sdir w = IsDir m"
  by (auto simp: open_creat_def split: dirnode.splits)

lemma is_empty_file_entry:
  "sdir w = IsDir m \<Longrightarrow>
     is_empty_file n w =
       Inr (case entry w n of None \<Rightarrow> 1 | Some (Reg c) \<Rightarrow> (if c = [] then 1 else 0) | Some Dir \<Rightarrow> 0)"
  by (simp add: is_empty_file_def entry_def split: option.splits node.splits)

lemma parse_mail_skip:
  assumes "entry w mail = Some inp" and "open_creat ''info'' w = Some old"
    and "run_mailinfo T inp old w = (rc, w3)" and "\<not> rc < 0"
    and "read_file ''info'' w3 = Found info"
    and "extract_info info ([], [], [], []) = (mm, an, ae, ad)"
    and "cstr an = ''Mail System Internal Data''"
  shows "parse_mail T state mail w = Inr (1, state, w3)"
  using assms by (simp add: parse_mail_def)

lemma parse_mail_empty:
  assumes "entry w mail = Some inp" and "open_creat ''info'' w = Some old"
    and "run_mailinfo T inp old w = (rc, w3)" and "\<not> rc < 0"
    and "read_file ''info'' w3 = Found info"
    and "extract_info info ([], [], [], []) = (mm, an, ae, ad)"
    and "cstr an \<noteq> ''Mail System Internal Data''"
    and "entry w3 ''patch'' = None \<or> entry w3 ''patch'' = Some (Reg [])"
  shows "parse_mail T state mail w =
           Inl (Exit 128, print_ln ''Patch is empty. Was it split wrong?'' w3)"
proof -
  from open_creat_is_dir[OF assms(2)] run_mailinfo_frame(4)[OF assms(3)]
  obtain m3 where "sdir w3 = IsDir m3" by blast
  from is_empty_file_entry[OF this, of "''patch''"] assms(8)
  have "is_empty_file ''patch'' w3 = Inr 1" by auto
  with assms(1-7) show ?thesis by (simp add: parse_mail_def)
qed

lemma parse_mail_keep:
  assumes "entry w mail = Some inp" and "open_creat ''info'' w = Some old"
    and "run_mailinfo T inp old w = (rc, w3)" and "\<not> rc < 0"
    and "read_file ''info'' w3 = Found info"
    and "extract_info info ([], [], [], []) = (mm, an, ae, ad)"
    and "cstr an \<noteq> ''Mail System Internal Data''"
    and "entry w3 ''patch'' = Some (Reg p)" and "p \<noteq> []"
    and "read_file ''msg'' w3 = Found body"
  shows "parse_mail T state mail w =
           (if author_name state \<noteq> None then Inl (AssertFail ''!state->author_name'', w3)
            else if author_email state \<noteq> None then Inl (AssertFail ''!state->author_email'', w3)
            else if author_date state \<noteq> None then Inl (AssertFail ''!state->author_date'', w3)
            else if msg state \<noteq> None then Inl (AssertFail ''!state->msg'', w3)
            else Inr (0, state\<lparr>author_name := Some an, author_email := Some ae,
                              author_date := Some ad,
                              msg := Some (stripspace T (mm @ [LF, LF] @ body)),
                              msg_len := length (stripspace T (mm @ [LF, LF] @ body))\<rparr>, w3))"
proof -
  from open_creat_is_dir[OF assms(2)] run_mailinfo_frame(4)[OF assms(3)]
  obtain m3 where "sdir w3 = IsDir m3" by blast
  from is_empty_file_entry[OF this, of "''patch''"] assms(8,9)
  have "is_empty_file ''patch'' w3 = Inr 0" by auto
  with assms(1-7,10) show ?thesis by (simp add: parse_mail_def Let_def)
qed

lemma parse_mail_returns:
  assumes "parse_mail T state mail w = Inr (r, state1, w1)"
  shows "same_repo w1 w" "index w1 = index w" "\<exists>m. sdir w1 = IsDir m"
    "\<And>n. n \<noteq> ''info'' \<Longrightarrow> n \<noteq> ''msg'' \<Longrightarrow> n \<noteq> ''patch'' \<Longrightarrow> entry w1 n = entry w n"
    "r = 0 \<or> r = 1" "r = 1 \<Longrightarrow> state1 = state"
    "r = 0 \<Longrightarrow> author_name state = None \<and> author_email state = None \<and>
                author_date state = None \<and> msg state = None \<and>
                (\<exists>an ae ad m. state1 = state\<lparr>author_name := Some an, author_email := Some ae,
                   author_date := Some ad, msg := Some m, msg_len := length m\<rparr>)"
proof -
  from assms obtain inp old where e: "entry w mail = Some inp" and o: "open_creat ''info'' w = Some old"
    by (auto simp: parse_mail_def split: option.splits)
  obtain rc w3 where rm: "run_mailinfo T inp old w = (rc, w3)" by (cases "run_mailinfo T inp old w")
  from assms e o rm have w1: "w1 = w3"
    by (auto simp: parse_mail_def Let_def split: io.splits prod.splits sum.splits if_splits)
  from run_mailinfo_frame[OF rm] open_creat_is_dir[OF o]
  show "same_repo w1 w" "index w1 = index w" "\<exists>m. sdir w1 = IsDir m"
    "\<And>n. n \<noteq> ''info'' \<Longrightarrow> n \<noteq> ''msg'' \<Longrightarrow> n \<noteq> ''patch'' \<Longrightarrow> entry w1 n = entry w n"
    unfolding w1 by auto
  from assms e o rm show "r = 0 \<or> r = 1"
    by (auto simp: parse_mail_def Let_def split: io.splits prod.splits sum.splits if_splits)
  from assms e o rm show "r = 1 \<Longrightarrow> state1 = state"
    by (auto simp: parse_mail_def Let_def split: io.splits prod.splits sum.splits if_splits)
  from assms e o rm show "r = 0 \<Longrightarrow> author_name state = None \<and> author_email state = None \<and>
                author_date state = None \<and> msg state = None \<and>
                (\<exists>an ae ad m. state1 = state\<lparr>author_name := Some an, author_email := Some ae,
                   author_date := Some ad, msg := Some m, msg_len := length m\<rparr>)"
    by (auto simp: parse_mail_def Let_def split: io.splits prod.splits sum.splits if_splits)
qed

lemma write_author_script_frame:
  assumes "write_author_script state w = Inr w'"
  shows "same_repo w' w" "index w' = index w" "\<exists>m. sdir w' = IsDir m"
    "\<exists>n e d. author_name state = Some n \<and> author_email state = Some e \<and>
       author_date state = Some d \<and>
       entry w' ''author-script'' = Some (Reg (cstr (author_script n e d)))"
    "\<And>n'. n' \<noteq> ''author-script'' \<Longrightarrow> entry w' n' = entry w n'"
    "oplog w' = oplog w @ [Write ''author-script'']"
proof -
  from assms obtain n e d where f: "author_name state = Some n" "author_email state = Some e"
    "author_date state = Some d"
    and wf: "write_file ''author-script'' (cstr (author_script n e d)) w = Inr w'"
    by (auto simp: write_author_script_def split: option.splits)
  from write_file_frame[OF wf] f
  show "same_repo w' w" "index w' = index w" "\<exists>m. sdir w' = IsDir m"
    "\<exists>n e d. author_name state = Some n \<and> author_email state = Some e \<and>
       author_date state = Some d \<and>
       entry w' ''author-script'' = Some (Reg (cstr (author_script n e d)))"
    "\<And>n'. n' \<noteq> ''author-script'' \<Longrightarrow> entry w' n' = entry w n'"
    "oplog w' = oplog w @ [Write ''author-script'']"
    by auto
qed

lemma write_commit_msg_frame:
  assumes "write_commit_msg state w = Inr w'"
  shows "same_repo w' w" "index w' = index w" "\<exists>m. sdir w' = IsDir m"
    "\<exists>m old. msg state = Some m \<and> open_creat ''final-commit'' w = Some old \<and>
       entry w' ''final-commit'' = Some (Reg (pwrite old (take (msg_len state) m)))"
    "\<And>n'. n' \<noteq> ''final-commit'' \<Longrightarrow> entry w' n' = entry w n'"
    "oplog w' = oplog w @ [Write ''final-commit'']"
proof -
  from assms obtain m old where m: "msg state = Some m"
    and o: "open_creat ''final-commit'' w = Some old"
    and w': "w' = put_file ''final-commit'' (pwrite old (take (msg_len state) m)) w"
    by (auto simp: write_commit_msg_def split: option.splits)
  from open_creat_is_dir[OF o] obtain mm where d: "sdir w = IsDir mm" by blast
  show "same_repo w' w" "index w' = index w" unfolding w' by (rule put_file_frame)+
  show "\<exists>m. sdir w' = IsDir m" unfolding w' using d by (simp add: is_dir_put_file)
  show "\<exists>m old. msg state = Some m \<and> open_creat ''final-commit'' w = Some old \<and>
       entry w' ''final-commit'' = Some (Reg (pwrite old (take (msg_len state) m)))"
    unfolding w' using m o entry_put_file_same[OF d] by auto
  show "\<And>n'. n' \<noteq> ''final-commit'' \<Longrightarrow> entry w' n' = entry w n'"
    unfolding w' by (rule entry_put_file_other)
  show "oplog w' = oplog w @ [Write ''final-commit'']"
    unfolding w' using d by (simp add: put_file_def)
qed

lemma run_apply_frame:
  assumes "run_apply T state w = (r, w')"
  shows "same_repo w' w" "sdir w' = sdir w" "oplog w' = oplog w"
    "r = (if fst (git_apply T (entry w ''patch'') (index w)) \<noteq> 0 then - 1 else 0)"
  using assms
  by (auto simp: run_apply_def same_repo_def split: prod.splits if_splits)

lemma entry_cong_sdir: "sdir v = sdir w \<Longrightarrow> entry v n = entry w n"
  by (simp add: entry_def)

lemma do_commit_frame:
  assumes "do_commit T state w = Inr w'"
  shows "sdir w' = sdir w" "oplog w' = oplog w" "head_ref w' \<noteq> None"
    "\<exists>c. objects w' = objects w @ [c] \<and> head_ref w' = Some c"
  using assms
  by (auto simp: do_commit_def Let_def print_ln_def split: option.splits prod.splits if_splits)

lemma do_commit_stops_frame:
  assumes "do_commit T state w = Inl (e, w')"
  shows "sdir w' = sdir w" "same_repo w' w" "oplog w' = oplog w"
  using assms
  by (auto simp: do_commit_def Let_def print_ln_def same_repo_def
      split: option.splits prod.splits if_splits)

lemma am_next_returns:
  assumes "am_next state w = Inr (state', w')"
  shows "author_name state' = None \<and> author_email state' = None \<and> author_date state' = None \<and>
         msg state' = None \<and> msg_len state' = 0"
    "cur state' = cur state + 1" "last_no state' = last_no state" "prec state' = prec state"
    "oplog w' = oplog w @ [Unlink ''author-script'', Unlink ''final-commit'', Write ''next'']"
    "entry w' ''next'' = Some (Reg (printf_d (cur state + 1)))"
    "entry w ''author-script'' \<noteq> Some Dir \<Longrightarrow> entry w' ''author-script'' = None"
    "entry w ''final-commit'' \<noteq> Some Dir \<Longrightarrow> entry w' ''final-commit'' = None"
    "same_repo w' w" "index w' = index w" "\<exists>m. sdir w' = IsDir m"
proof -
  define w2 where "w2 = unlink ''final-commit'' (unlink ''author-script'' w)"
  from assms have wf: "write_file ''next'' (printf_d (cur state + 1)) w2 = Inr w'"
    and st: "state' = state\<lparr>author_name := None, author_email := None, author_date := None,
                            msg := None, msg_len := 0, cur := cur state + 1\<rparr>"
    unfolding am_next_def Let_def w2_def by (auto split: if_splits sum.splits)
  from st show "author_name state' = None \<and> author_email state' = None \<and>
      author_date state' = None \<and> msg state' = None \<and> msg_len state' = 0"
    "cur state' = cur state + 1" "last_no state' = last_no state" "prec state' = prec state"
    by simp_all
  note f = write_file_frame[OF wf]
  show "oplog w' = oplog w @ [Unlink ''author-script'', Unlink ''final-commit'', Write ''next'']"
    using f(6) by (simp add: w2_def oplog_unlink)
  show "entry w' ''next'' = Some (Reg (printf_d (cur state + 1)))" by (rule f(3))
  show "entry w ''author-script'' \<noteq> Some Dir \<Longrightarrow> entry w' ''author-script'' = None"
    using f(4)[of "''author-script''"]
    by (simp add: w2_def entry_unlink_other entry_unlink_same)
  show "entry w ''final-commit'' \<noteq> Some Dir \<Longrightarrow> entry w' ''final-commit'' = None"
    using f(4)[of "''final-commit''"]
    by (simp add: w2_def entry_unlink_other entry_unlink_same)
  have "same_repo w2 w" "index w2 = index w"
    unfolding w2_def using unlink_frame same_repo_trans by (blast, simp add: unlink_frame)
  with f(1,2) show "same_repo w' w" "index w' = index w"
    by (auto intro: same_repo_trans)
  show "\<exists>m. sdir w' = IsDir m" by (rule f(5))
qed

lemma am_next_succeeds:
  assumes "sdir w = IsDir m" and "entry w ''next'' \<noteq> Some Dir" and "cur state \<noteq> 2 ^ 31 - 1"
  shows "\<exists>state' w'. am_next state w = Inr (state', w')"
proof -
  define w2 where "w2 = unlink ''final-commit'' (unlink ''author-script'' w)"
  from assms(1) have "\<exists>m. sdir w2 = IsDir m"
    unfolding w2_def by (simp add: is_dir_unlink)
  then obtain m2 where d: "sdir w2 = IsDir m2" by blast
  have "entry w2 ''next'' = entry w ''next''"
    unfolding w2_def by (simp add: entry_unlink_other)
  with assms(2) have "entry w2 ''next'' \<noteq> Some Dir" by simp
  from write_file_succeeds[OF d this] obtain w' where
    "write_file ''next'' (printf_d (cur state + 1)) w2 = Inr w'" by blast
  with assms(3) show ?thesis
    unfolding am_next_def Let_def w2_def by simp
qed

lemma am_run_loop_step:
  assumes "cur state \<le> last_no state"
  shows "am_run_loop T state w =
     (case am_run_iter T state w of
        Inl e \<Rightarrow> Inl e
      | Inr (state1, w1) \<Rightarrow>
          (case am_next state1 w1 of
             Inl e \<Rightarrow> Inl e
           | Inr (state2, w2) \<Rightarrow> am_run_loop T state2 w2))"
  using assms by (subst am_run_loop.simps) simp

lemma am_run_loop_done: "\<not> cur state \<le> last_no state \<Longrightarrow> am_run_loop T state w = Inr (state, w)"
  by (subst am_run_loop.simps) simp

section \<open>A skipped patch leaves no commit\<close>

text \<open>
  Claim C7. When the mail of the current patch exists, the parser has run, and the author
  name collected from \<^verbatim>\<open>info\<close> is \<^verbatim>\<open>Mail System Internal Data\<close>, then \<^verbatim>\<open>parse_mail\<close> returns 1
  (skip) with the state untouched, the loop body goes straight to \<^verbatim>\<open>am_next\<close>, and neither
  the parse nor the advance writes a commit object or moves \<^verbatim>\<open>HEAD\<close>; the loop goes on with
  the next patch number.
\<close>

theorem skip_is_silent:
  assumes mail: "entry w (msgnum state) = Some inp"
    and info: "open_creat ''info'' w = Some old"
    and run: "run_mailinfo T inp old w = (rc, w3)" and rc: "\<not> rc < 0"
    and read: "read_file ''info'' w3 = Found info_text"
    and parsed: "extract_info info_text ([], [], [], []) = (mm, an, ae, ad)"
    and name: "cstr an = ''Mail System Internal Data''"
  shows "parse_mail T state (msgnum state) w = Inr (1, state, w3) \<and>
         am_run_iter T state w = Inr (state, w3) \<and>
         head_ref w3 = head_ref w \<and> objects w3 = objects w \<and>
         (\<forall>state2 w2. am_next state w3 = Inr (state2, w2) \<longrightarrow>
            cur state2 = cur state + 1 \<and> head_ref w2 = head_ref w \<and> objects w2 = objects w \<and>
            (cur state \<le> last_no state \<longrightarrow> am_run_loop T state w = am_run_loop T state2 w2))"
proof -
  have pm: "parse_mail T state (msgnum state) w = Inr (1, state, w3)"
    by (rule parse_mail_skip[OF mail info run rc read parsed name])
  from mail have ex: "file_exists (msgnum state) w" by (simp add: file_exists_def)
  have it: "am_run_iter T state w = Inr (state, w3)"
    by (simp add: am_run_iter_def ex pm)
  from run_mailinfo_frame(1)[OF run] have r3: "head_ref w3 = head_ref w" "objects w3 = objects w"
    by (simp_all add: same_repo_def)
  have "cur state2 = cur state + 1 \<and> head_ref w2 = head_ref w \<and> objects w2 = objects w \<and>
        (cur state \<le> last_no state \<longrightarrow> am_run_loop T state w = am_run_loop T state2 w2)"
    if n: "am_next state w3 = Inr (state2, w2)" for state2 w2
  proof -
    from am_next_returns(2,9)[OF n] r3
    have "cur state2 = cur state + 1" "head_ref w2 = head_ref w" "objects w2 = objects w"
      by (simp_all add: same_repo_def)
    moreover have "am_run_loop T state w = am_run_loop T state2 w2" if "cur state \<le> last_no state"
      by (simp add: am_run_loop_step[OF that] it n)
    ultimately show ?thesis by blast
  qed
  with pm it r3 show ?thesis by blast
qed

lemma ex_msgnum: "msgnum ex_state = ''0001''"
proof -
  have "printf_0d 4 1 = ''0001''" by code_simp
  then show ?thesis by (simp add: msgnum_def ex_state_def am_state_init_def)
qed

lemma ex_session_entries:
  "sdir (ex_session mail) = IsDir [''0001'' \<mapsto> Reg mail, ''next'' \<mapsto> Reg ''1'', ''last'' \<mapsto> Reg ''1'']"
  "entry (ex_session mail) ''0001'' = Some (Reg mail)"
  "open_creat ''info'' (ex_session mail) = Some []"
  "head_ref (ex_session mail) = None" "objects (ex_session mail) = []"
  by (simp_all add: ex_session_def ex_world_def entry_def open_creat_def)

lemma ex_run_mailinfo:
  "run_mailinfo (ex_tools []) (Reg mail) [] (ex_session mail) = (0, ex_parsed mail)"
  by (simp add: ex_parsed_def run_mailinfo_def ex_tools_def ex_mailinfo_def Let_def)

lemma ex_parsed_files:
  "read_file ''info'' (ex_parsed mail) = Found (ex_info mail)"
  "read_file ''msg'' (ex_parsed mail) = Found (''Added line'' @ [LF])"
  "entry (ex_parsed mail) ''patch'' =
     Some (Reg (if mail = ''nopatch'' \<or> mail = ''Mail System Internal Data'' then []
                else ''diff '' @ mail))"
  by (simp_all add: ex_parsed_def run_mailinfo_def ex_tools_def ex_mailinfo_def Let_def
      ex_session_def ex_world_def put_file_def tool_write_def open_creat_def read_file_def
      entry_def pwrite_def ex_info_def)

lemma extract_info_eof: "extract_info [] acc = acc"
  by (cases acc) (simp add: extract_info.simps strbuf_getline_def strbuf_getwholeline_def)

lemma extract_info_line:
  assumes "LF \<notin> set l" and "NUL \<notin> set l"
  shows "extract_info (l @ LF # rest) (m, an, ae, ad) =
     (case skip_prefix l ''Subject: '' of
        Some x \<Rightarrow> extract_info rest ((if m \<noteq> [] then m @ [LF] else m) @ x, an, ae, ad)
      | None \<Rightarrow>
     (case skip_prefix l ''Author: '' of
        Some x \<Rightarrow> extract_info rest (m, an @ x, ae, ad)
      | None \<Rightarrow>
     (case skip_prefix l ''Email: '' of
        Some x \<Rightarrow> extract_info rest (m, an, ae @ x, ad)
      | None \<Rightarrow>
     (case skip_prefix l ''Date: '' of
        Some x \<Rightarrow> extract_info rest (m, an, ae, ad @ x)
      | None \<Rightarrow> extract_info rest (m, an, ae, ad)))))"
  by (subst extract_info.simps)
     (simp add: strbuf_getline_line[OF assms(1)] cstr_id[OF assms(2)] split: option.splits)

lemma ex_extract_info:
  assumes "LF \<notin> set mail" and "NUL \<notin> set mail"
  shows "extract_info (ex_info mail) ([], [], [], []) =
           (''Hello'', mail, ''a@u.th'', ''Mon, 1 Jan 2001 00:00:00 +0000'')"
proof -
  have 1: "extract_info (ex_info mail) ([], [], [], []) =
        extract_info (''Email: a@u.th'' @ LF # ''Subject: Hello'' @ LF #
                      ''Date: Mon, 1 Jan 2001 00:00:00 +0000'' @ LF # []) ([], mail, [], [])"
    using extract_info_line[of "''Author: '' @ mail" _ "[]" "[]" "[]" "[]"] assms
    by (simp add: ex_info_def)
  have 2: "extract_info (''Email: a@u.th'' @ LF # ''Subject: Hello'' @ LF #
                      ''Date: Mon, 1 Jan 2001 00:00:00 +0000'' @ LF # []) ([], mail, [], []) =
           extract_info (''Subject: Hello'' @ LF #
                      ''Date: Mon, 1 Jan 2001 00:00:00 +0000'' @ LF # []) ([], mail, ''a@u.th'', [])"
    by (subst extract_info_line) simp_all
  have 3: "extract_info (''Subject: Hello'' @ LF #
                      ''Date: Mon, 1 Jan 2001 00:00:00 +0000'' @ LF # []) ([], mail, ''a@u.th'', []) =
           extract_info (''Date: Mon, 1 Jan 2001 00:00:00 +0000'' @ LF # [])
             (''Hello'', mail, ''a@u.th'', [])"
    by (subst extract_info_line) simp_all
  have 4: "extract_info (''Date: Mon, 1 Jan 2001 00:00:00 +0000'' @ LF # [])
             (''Hello'', mail, ''a@u.th'', []) =
           (''Hello'', mail, ''a@u.th'', ''Mon, 1 Jan 2001 00:00:00 +0000'')"
    by (subst extract_info_line) (simp_all add: extract_info_eof)
  from 1 2 3 4 show ?thesis by simp
qed

lemma ex_state_unset:
  "author_name ex_state = None" "author_email ex_state = None" "author_date ex_state = None"
  "msg ex_state = None" "cur ex_state = 1" "last_no ex_state = 1"
  by (simp_all add: ex_state_def am_state_init_def)

lemma ex_parsed_entries:
  "entry (ex_parsed mail) ''author-script'' = None" "entry (ex_parsed mail) ''final-commit'' = None"
  "entry (ex_parsed mail) ''next'' = Some (Reg ''1'')"
  "index (ex_parsed mail) = []" "head_ref (ex_parsed mail) = None" "objects (ex_parsed mail) = []"
  using run_mailinfo_frame(1,2)[OF ex_run_mailinfo[of mail]]
    run_mailinfo_frame(3)[OF ex_run_mailinfo[of mail], of "''author-script''"]
    run_mailinfo_frame(3)[OF ex_run_mailinfo[of mail], of "''final-commit''"]
    run_mailinfo_frame(3)[OF ex_run_mailinfo[of mail], of "''next''"]
  by (simp_all add: same_repo_def ex_session_def ex_world_def entry_def)

theorem skip_is_silent_witness:
  "parse_mail (ex_tools []) ex_state ''0001'' (ex_session ''Mail System Internal Data'')
     = Inr (1, ex_state, ex_parsed ''Mail System Internal Data'') \<and>
   am_run_iter (ex_tools []) ex_state (ex_session ''Mail System Internal Data'')
     = Inr (ex_state, ex_parsed ''Mail System Internal Data'') \<and>
   head_ref (ex_parsed ''Mail System Internal Data'') = None \<and>
   objects (ex_parsed ''Mail System Internal Data'') = [] \<and>
   (\<exists>state2 w2. am_next ex_state (ex_parsed ''Mail System Internal Data'') = Inr (state2, w2) \<and>
      cur state2 = 2 \<and> head_ref w2 = None \<and> objects w2 = [] \<and>
      am_run_loop (ex_tools []) ex_state (ex_session ''Mail System Internal Data'') =
        Inr (state2, w2))"
proof -
  let ?w = "ex_session ''Mail System Internal Data''" and ?w3 = "ex_parsed ''Mail System Internal Data''"
  note skip = skip_is_silent[of ?w ex_state "Reg ''Mail System Internal Data''" "[]" "ex_tools []" 0
      ?w3 "ex_info ''Mail System Internal Data''" "''Hello''" "''Mail System Internal Data''"
      "''a@u.th''" "''Mon, 1 Jan 2001 00:00:00 +0000''"]
  have hyps: "entry ?w (msgnum ex_state) = Some (Reg ''Mail System Internal Data'')"
    "open_creat ''info'' ?w = Some []"
    "run_mailinfo (ex_tools []) (Reg ''Mail System Internal Data'') [] ?w = (0, ?w3)"
    "\<not> (0::int) < 0"
    "read_file ''info'' ?w3 = Found (ex_info ''Mail System Internal Data'')"
    "extract_info (ex_info ''Mail System Internal Data'') ([], [], [], []) =
       (''Hello'', ''Mail System Internal Data'', ''a@u.th'', ''Mon, 1 Jan 2001 00:00:00 +0000'')"
    "cstr ''Mail System Internal Data'' = ''Mail System Internal Data''"
    by (simp_all add: ex_msgnum ex_session_entries ex_run_mailinfo ex_parsed_files
        ex_extract_info cstr_def)
  note concl = skip[OF hyps]
  from run_mailinfo_frame(4)[OF hyps(3)] ex_session_entries(1)
  obtain m3 where d: "sdir ?w3 = IsDir m3" by auto
  from am_next_succeeds[OF d, of ex_state] obtain state2 w2 where
    nx: "am_next ex_state ?w3 = Inr (state2, w2)"
    by (auto simp: ex_parsed_entries ex_state_unset)
  from concl nx have r: "cur state2 = 2" "head_ref w2 = None" "objects w2 = []"
    "am_run_loop (ex_tools []) ex_state ?w = am_run_loop (ex_tools []) state2 w2"
    by (simp_all add: ex_state_unset ex_session_entries)
  from am_next_returns(3)[OF nx] r(1) have "\<not> cur state2 \<le> last_no state2"
    by (simp add: ex_state_unset)
  from r(4) am_run_loop_done[OF this, of "ex_tools []" w2]
  have lp: "am_run_loop (ex_tools []) ex_state ?w = Inr (state2, w2)" by (rule trans)
  from concl have p: "parse_mail (ex_tools []) ex_state ''0001'' ?w = Inr (1, ex_state, ?w3)"
    and i: "am_run_iter (ex_tools []) ex_state ?w = Inr (ex_state, ?w3)"
    and h: "head_ref ?w3 = None" "objects ?w3 = []"
    by (simp_all add: ex_msgnum ex_session_entries)
  from nx r(1-3) lp
  have "\<exists>state2 w2. am_next ex_state ?w3 = Inr (state2, w2) \<and>
      cur state2 = 2 \<and> head_ref w2 = None \<and> objects w2 = [] \<and>
      am_run_loop (ex_tools []) ex_state ?w = Inr (state2, w2)"
    by blast
  with p i h show ?thesis by blast
qed

section \<open>An empty patch ends the run, after the skip test\<close>

lemma put_file_out: "out (put_file n c w) = out w"
  by (simp add: put_file_def split: dirnode.splits)

lemma tool_write_out: "out (tool_write n c w) = out w"
  by (simp add: tool_write_def put_file_out split: option.splits)

lemma run_mailinfo_out:
  assumes "run_mailinfo T inp old w = (rc, w3)"
  shows "out w3 = out w"
proof -
  obtain r io mf pf where mi: "mailinfo T inp = (r, io, mf, pf)" by (cases "mailinfo T inp")
  from assms mi show ?thesis
    unfolding run_mailinfo_def Let_def
    by (auto simp: put_file_out tool_write_out split: option.splits)
qed

text \<open>
  Claim C8. When the mail of the current patch exists, the parser has run, and the
  \<^verbatim>\<open>patch\<close> file is then absent or empty: if the author name is not the one that marks a
  message to skip, \<^verbatim>\<open>parse_mail\<close> prints \<^verbatim>\<open>Patch is empty. Was it split wrong?\<close> and the run
  exits with status 128; if it is, \<^verbatim>\<open>parse_mail\<close> returns 1 as for any skipped message and
  nothing aborts, the skip test coming first.
\<close>

theorem empty_patch_aborts:
  assumes mail: "entry w (msgnum state) = Some inp"
    and info: "open_creat ''info'' w = Some old"
    and run: "run_mailinfo T inp old w = (rc, w3)" and rc: "\<not> rc < 0"
    and read: "read_file ''info'' w3 = Found info_text"
    and parsed: "extract_info info_text ([], [], [], []) = (mm, an, ae, ad)"
    and nopatch: "entry w3 ''patch'' = None \<or> entry w3 ''patch'' = Some (Reg [])"
  shows "(cstr an \<noteq> ''Mail System Internal Data'' \<longrightarrow>
            parse_mail T state (msgnum state) w =
              Inl (Exit 128, print_ln ''Patch is empty. Was it split wrong?'' w3) \<and>
            am_run_iter T state w =
              Inl (Exit 128, print_ln ''Patch is empty. Was it split wrong?'' w3) \<and>
            (cur state \<le> last_no state \<longrightarrow>
               am_run_loop T state w =
                 Inl (Exit 128, print_ln ''Patch is empty. Was it split wrong?'' w3)) \<and>
            out (print_ln ''Patch is empty. Was it split wrong?'' w3) =
              out w @ [''Patch is empty. Was it split wrong?'']) \<and>
         (cstr an = ''Mail System Internal Data'' \<longrightarrow>
            parse_mail T state (msgnum state) w = Inr (1, state, w3) \<and>
            am_run_iter T state w = Inr (state, w3))"
proof (intro conjI impI)
  from mail have ex: "file_exists (msgnum state) w" by (simp add: file_exists_def)
  {
    assume name: "cstr an \<noteq> ''Mail System Internal Data''"
    show pm: "parse_mail T state (msgnum state) w =
              Inl (Exit 128, print_ln ''Patch is empty. Was it split wrong?'' w3)"
      by (rule parse_mail_empty[OF mail info run rc read parsed name nopatch])
    then show it: "am_run_iter T state w =
              Inl (Exit 128, print_ln ''Patch is empty. Was it split wrong?'' w3)"
      by (simp add: am_run_iter_def ex)
    show "am_run_loop T state w =
                 Inl (Exit 128, print_ln ''Patch is empty. Was it split wrong?'' w3)"
      if "cur state \<le> last_no state"
      by (simp add: am_run_loop_step[OF that] it)
    show "out (print_ln ''Patch is empty. Was it split wrong?'' w3) =
              out w @ [''Patch is empty. Was it split wrong?'']"
      using run_mailinfo_out[OF run] by (simp add: print_ln_def)
  }
  {
    assume name: "cstr an = ''Mail System Internal Data''"
    show pm: "parse_mail T state (msgnum state) w = Inr (1, state, w3)"
      by (rule parse_mail_skip[OF mail info run rc read parsed name])
    then show "am_run_iter T state w = Inr (state, w3)"
      by (simp add: am_run_iter_def ex)
  }
qed

theorem empty_patch_aborts_witness:
  "parse_mail (ex_tools []) ex_state ''0001'' (ex_session ''nopatch'') =
     Inl (Exit 128, print_ln ''Patch is empty. Was it split wrong?'' (ex_parsed ''nopatch'')) \<and>
   am_run_loop (ex_tools []) ex_state (ex_session ''nopatch'') =
     Inl (Exit 128, print_ln ''Patch is empty. Was it split wrong?'' (ex_parsed ''nopatch'')) \<and>
   out (print_ln ''Patch is empty. Was it split wrong?'' (ex_parsed ''nopatch'')) =
     [''Patch is empty. Was it split wrong?''] \<and>
   entry (ex_parsed ''Mail System Internal Data'') ''patch'' = Some (Reg []) \<and>
   am_run_iter (ex_tools []) ex_state (ex_session ''Mail System Internal Data'') =
     Inr (ex_state, ex_parsed ''Mail System Internal Data'')"
proof -
  have o: "out (ex_session ''nopatch'') = []" by (simp add: ex_session_def ex_world_def)
  have c: "cur ex_state \<le> last_no ex_state" by (simp add: ex_state_def)
  have 1: "parse_mail (ex_tools []) ex_state ''0001'' (ex_session ''nopatch'') =
     Inl (Exit 128, print_ln ''Patch is empty. Was it split wrong?'' (ex_parsed ''nopatch'')) \<and>
   am_run_loop (ex_tools []) ex_state (ex_session ''nopatch'') =
     Inl (Exit 128, print_ln ''Patch is empty. Was it split wrong?'' (ex_parsed ''nopatch'')) \<and>
   out (print_ln ''Patch is empty. Was it split wrong?'' (ex_parsed ''nopatch'')) =
     [''Patch is empty. Was it split wrong?'']"
    using empty_patch_aborts[of "ex_session ''nopatch''" ex_state "Reg ''nopatch''" "[]"
      "ex_tools []" 0 "ex_parsed ''nopatch''" "ex_info ''nopatch''"
      "''Hello''" "''nopatch''" "''a@u.th''" "''Mon, 1 Jan 2001 00:00:00 +0000''"] o c
    by (simp add: ex_msgnum ex_session_entries ex_run_mailinfo ex_parsed_files ex_extract_info
      cstr_def)
  have 2: "entry (ex_parsed ''Mail System Internal Data'') ''patch'' = Some (Reg []) \<and>
   am_run_iter (ex_tools []) ex_state (ex_session ''Mail System Internal Data'') =
     Inr (ex_state, ex_parsed ''Mail System Internal Data'')"
    using empty_patch_aborts[of "ex_session ''Mail System Internal Data''" ex_state
      "Reg ''Mail System Internal Data''" "[]" "ex_tools []" 0
      "ex_parsed ''Mail System Internal Data''" "ex_info ''Mail System Internal Data''"
      "''Hello''" "''Mail System Internal Data''" "''a@u.th''"
      "''Mon, 1 Jan 2001 00:00:00 +0000''"]
    by (simp add: ex_msgnum ex_session_entries ex_run_mailinfo ex_parsed_files ex_extract_info
      cstr_def)
  from 1 2 show ?thesis by simp
qed

section \<open>A failed apply leaves the session as it was written\<close>

lemma am_run_iter_apply_fails:
  assumes mail: "file_exists (msgnum state) w"
    and parse: "parse_mail T state (msgnum state) w = Inr (0, state1, w1)"
    and was: "write_author_script state1 w1 = Inr w2"
    and wcm: "write_commit_msg state1 w2 = Inr w3"
    and fail: "fst (git_apply T (entry w1 ''patch'') (index w1)) \<noteq> 0"
  shows "\<exists>w'. am_run_iter T state w = Inl (Exit 128, w') \<and> sdir w' = sdir w3 \<and>
           same_repo w' w3 \<and> oplog w' = oplog w3"
proof -
  obtain m where m: "msg state1 = Some m"
    using write_commit_msg_frame(4)[OF wcm] by blast
  define w4 where "w4 = print_ln (''Applying: '' @ take (linelen m) m) w3"
  have e4: "entry w4 ''patch'' = entry w1 ''patch''"
    unfolding w4_def
    by (simp add: entry_print_ln write_commit_msg_frame(5)[OF wcm]
        write_author_script_frame(5)[OF was])
  have i4: "index w4 = index w1"
    unfolding w4_def
    by (simp add: print_ln_frame write_commit_msg_frame(2)[OF wcm]
        write_author_script_frame(2)[OF was])
  obtain r w5 where ra: "run_apply T state1 w4 = (r, w5)" by (cases "run_apply T state1 w4")
  from run_apply_frame[OF ra] fail e4 i4 have r: "r = - 1" and f5: "same_repo w5 w4"
    "sdir w5 = sdir w4" "oplog w5 = oplog w4" by simp_all
  define w6 where "w6 = print_ln (''Patch failed at '' @ msgnum state1 @ '' '' @ take (linelen m) m) w5"
  define w7 where "w7 = (if advice_amworkdir T
       then print_ln (''The copy of the patch that failed is found in: '' @ dir state1 @ ''/patch'') w6
       else w6)"
  have it: "am_run_iter T state w = Inl (Exit 128, w7)"
    unfolding am_run_iter_def w7_def w6_def
    using mail parse was wcm m ra r by (simp add: Let_def w4_def)
  have "sdir w7 = sdir w3" "oplog w7 = oplog w3"
    unfolding w7_def w6_def using f5(2,3) by (simp_all add: print_ln_frame w4_def)
  moreover have "same_repo w7 w3"
    unfolding w7_def w6_def using f5(1)
    by (simp add: same_repo_def print_ln_def w4_def)
  ultimately show ?thesis using it by blast
qed

lemma write_author_script_succeeds:
  assumes "sdir w = IsDir m" and "entry w ''author-script'' \<noteq> Some Dir"
    and "author_name state = Some n" "author_email state = Some e" "author_date state = Some d"
  shows "\<exists>w'. write_author_script state w = Inr w'"
  using write_file_succeeds[OF assms(1,2)] assms(3-5)
  by (simp add: write_author_script_def)

lemma write_commit_msg_succeeds:
  assumes "sdir w = IsDir m" and "entry w ''final-commit'' \<noteq> Some Dir" and "msg state = Some t"
  shows "\<exists>w'. write_commit_msg state w = Inr w'"
  using assms
  by (auto simp: write_commit_msg_def open_creat_def entry_def split: option.splits node.splits)

lemma scratch_writes_succeed:
  assumes parse: "parse_mail T state mail w = Inr (0, state1, w1)"
    and nodir: "entry w1 ''author-script'' \<noteq> Some Dir" "entry w1 ''final-commit'' \<noteq> Some Dir"
  shows "\<exists>w2 w3. write_author_script state1 w1 = Inr w2 \<and> write_commit_msg state1 w2 = Inr w3"
proof -
  from parse_mail_returns(3,7)[OF parse] obtain m1 an ae ad t where
    d: "sdir w1 = IsDir m1" and
    s1: "state1 = state\<lparr>author_name := Some an, author_email := Some ae,
                   author_date := Some ad, msg := Some t, msg_len := length t\<rparr>"
    by auto
  from s1 have f: "author_name state1 = Some an" "author_email state1 = Some ae"
    "author_date state1 = Some ad" "msg state1 = Some t" by simp_all
  from write_author_script_succeeds[OF d nodir(1) f(1-3)] obtain w2 where
    was: "write_author_script state1 w1 = Inr w2" by blast
  from write_author_script_frame(3,5)[OF was] nodir(2) obtain m2 where
    "sdir w2 = IsDir m2" "entry w2 ''final-commit'' \<noteq> Some Dir" by auto
  from write_commit_msg_succeeds[OF this f(4)] was show ?thesis by blast
qed

text \<open>
  Claim C5. When the mail of the current patch exists, \<^verbatim>\<open>parse_mail\<close> has returned 0 and the
  applier exits with a status other than 0 (the \<^verbatim>\<open>author-script\<close> and \<^verbatim>\<open>final-commit\<close> entries
  not being directories), the loop body, and with it the loop, ends in \<^verbatim>\<open>exit(128)\<close>. In
  the world it leaves, the session directory exists and is exactly as
  \<^verbatim>\<open>write_author_script\<close> and \<^verbatim>\<open>write_commit_msg\<close> left it before the apply attempt: \<^verbatim>\<open>next\<close> is
  what it was when the iteration began and the patch number in memory is the same,
  \<^verbatim>\<open>author-script\<close> holds the three parsed values, \<^verbatim>\<open>final-commit\<close> holds the message written
  over what the file held; \<^verbatim>\<open>HEAD\<close> and the object store are unchanged, and after the
  parser's files only those two files were written (no unlink, no write of \<^verbatim>\<open>next\<close>).
\<close>

theorem apply_failure_keeps_session:
  assumes mail: "file_exists (msgnum state) w"
    and parse: "parse_mail T state (msgnum state) w = Inr (0, state1, w1)"
    and nodir: "entry w1 ''author-script'' \<noteq> Some Dir" "entry w1 ''final-commit'' \<noteq> Some Dir"
    and fail: "fst (git_apply T (entry w1 ''patch'') (index w1)) \<noteq> 0"
  shows "\<exists>w2 w3 w'.
           write_author_script state1 w1 = Inr w2 \<and> write_commit_msg state1 w2 = Inr w3 \<and>
           am_run_iter T state w = Inl (Exit 128, w') \<and>
           (cur state \<le> last_no state \<longrightarrow> am_run_loop T state w = Inl (Exit 128, w')) \<and>
           sdir w' = sdir w3 \<and> (\<exists>m. sdir w' = IsDir m) \<and>
           entry w' ''next'' = entry w ''next'' \<and> cur state1 = cur state \<and>
           (\<exists>n e d. author_name state1 = Some n \<and> author_email state1 = Some e \<and>
                    author_date state1 = Some d \<and>
                    entry w' ''author-script'' = Some (Reg (cstr (author_script n e d)))) \<and>
           (\<exists>t old. msg state1 = Some t \<and>
                    entry w' ''final-commit'' = Some (Reg (pwrite old (take (msg_len state1) t)))) \<and>
           head_ref w' = head_ref w \<and> objects w' = objects w \<and>
           oplog w' = oplog w1 @ [Write ''author-script'', Write ''final-commit'']"
proof -
  from scratch_writes_succeed[OF parse nodir] obtain w2 w3 where
    was: "write_author_script state1 w1 = Inr w2" and wcm: "write_commit_msg state1 w2 = Inr w3"
    by blast
  from am_run_iter_apply_fails[OF mail parse was wcm fail] obtain w' where
    it: "am_run_iter T state w = Inl (Exit 128, w')" and sd: "sdir w' = sdir w3"
    and rp: "same_repo w' w3" and ol: "oplog w' = oplog w3" by blast
  note fa = write_author_script_frame[OF was] and fc = write_commit_msg_frame[OF wcm]
    and fp = parse_mail_returns[OF parse]
  have lp: "am_run_loop T state w = Inl (Exit 128, w')" if "cur state \<le> last_no state"
    by (simp add: am_run_loop_step[OF that] it)
  have nx: "entry w' ''next'' = entry w ''next''"
    using entry_cong_sdir[OF sd, of "''next''"] fc(5)[of "''next''"] fa(5)[of "''next''"]
      fp(4)[of "''next''"] by simp
  have cu: "cur state1 = cur state"
    using parse_mail_keeps_numbers[OF parse] by simp
  have as: "\<exists>n e d. author_name state1 = Some n \<and> author_email state1 = Some e \<and>
                    author_date state1 = Some d \<and>
                    entry w' ''author-script'' = Some (Reg (cstr (author_script n e d)))"
    using fa(4) entry_cong_sdir[OF sd, of "''author-script''"] fc(5)[of "''author-script''"]
    by auto
  have fcm: "\<exists>t old. msg state1 = Some t \<and>
                    entry w' ''final-commit'' = Some (Reg (pwrite old (take (msg_len state1) t)))"
    using fc(4) entry_cong_sdir[OF sd, of "''final-commit''"] by auto
  have rep: "head_ref w' = head_ref w" "objects w' = objects w"
    using rp fc(1) fa(1) fp(1) by (simp_all add: same_repo_def)
  have opl: "oplog w' = oplog w1 @ [Write ''author-script'', Write ''final-commit'']"
    using ol fc(6) fa(6) by simp
  from fc(3) sd have isd: "\<exists>m. sdir w' = IsDir m" by simp
  from was wcm it lp sd isd nx cu as fcm rep opl show ?thesis by blast
qed

lemma ex_parse_conflict:
  "parse_mail (ex_tools []) ex_state ''0001'' (ex_session ''conflict'') =
     Inr (0, ex_state_parsed ''conflict'', ex_parsed ''conflict'')"
proof -
  have "parse_mail (ex_tools []) ex_state ''0001'' (ex_session ''conflict'') =
     Inr (0, ex_state\<lparr>author_name := Some ''conflict'', author_email := Some ''a@u.th'',
              author_date := Some ''Mon, 1 Jan 2001 00:00:00 +0000'',
              msg := Some (stripspace (ex_tools []) (''Hello'' @ [LF, LF] @ ''Added line'' @ [LF])),
              msg_len := length (stripspace (ex_tools []) (''Hello'' @ [LF, LF] @ ''Added line'' @ [LF]))\<rparr>,
          ex_parsed ''conflict'')"
    using parse_mail_keep[of "ex_session ''conflict''" "''0001''" "Reg ''conflict''" "[]"
        "ex_tools []" 0 "ex_parsed ''conflict''" "ex_info ''conflict''" "''Hello''" "''conflict''"
        "''a@u.th''" "''Mon, 1 Jan 2001 00:00:00 +0000''" "''diff conflict''"
        "''Added line'' @ [LF]" ex_state]
    by (simp add: ex_session_entries ex_run_mailinfo ex_parsed_files ex_extract_info cstr_def
        ex_state_unset)
  then show ?thesis by (simp add: ex_state_parsed_def ex_msg_def ex_tools_def)
qed

theorem apply_failure_keeps_session_witness:
  "\<exists>w'. am_run_loop (ex_tools []) ex_state (ex_session ''conflict'') = Inl (Exit 128, w') \<and>
        (\<exists>m. sdir w' = IsDir m) \<and>
        entry w' ''next'' = Some (Reg ''1'') \<and>
        entry w' ''author-script'' =
          Some (Reg (author_script ''conflict'' ''a@u.th'' ''Mon, 1 Jan 2001 00:00:00 +0000'')) \<and>
        (\<exists>old. entry w' ''final-commit'' = Some (Reg (pwrite old ex_msg))) \<and>
        head_ref w' = None \<and> objects w' = []"
proof -
  have ex: "file_exists (msgnum ex_state) (ex_session ''conflict'')"
    by (simp add: file_exists_def ex_msgnum ex_session_entries)
  have fail: "fst (git_apply (ex_tools []) (entry (ex_parsed ''conflict'') ''patch'')
                 (index (ex_parsed ''conflict''))) \<noteq> 0"
    by (simp add: ex_parsed_files ex_tools_def ex_git_apply_def)
  have nodir: "entry (ex_parsed ''conflict'') ''author-script'' \<noteq> Some Dir"
    "entry (ex_parsed ''conflict'') ''final-commit'' \<noteq> Some Dir"
    by (simp_all add: ex_parsed_entries)
  have c: "cstr (author_script ''conflict'' ''a@u.th'' ''Mon, 1 Jan 2001 00:00:00 +0000'') =
           author_script ''conflict'' ''a@u.th'' ''Mon, 1 Jan 2001 00:00:00 +0000''"
    by (intro cstr_id author_script_no_NUL) simp_all
  from apply_failure_keeps_session[OF ex ex_parse_conflict[folded ex_msgnum] nodir fail]
  show ?thesis
    by (auto simp: ex_state_unset ex_state_parsed_def ex_session_entries c
        entry_def[of "ex_session ''conflict''"])
qed

section \<open>The per-patch files exist from the parse to the advance\<close>

lemma scratch_cong: "sdir v = sdir w \<Longrightarrow> scratch_present v = scratch_present w"
  "sdir v = sdir w \<Longrightarrow> scratch_absent v = scratch_absent w"
  by (simp_all add: scratch_present_def scratch_absent_def entry_def)

lemma scratch_present_not_absent: "scratch_present w \<Longrightarrow> \<not> scratch_absent w"
  by (auto simp: scratch_present_def scratch_absent_def is_reg_def)

lemma scratch_after_writes:
  assumes was: "write_author_script state1 w1 = Inr w2"
    and wcm: "write_commit_msg state1 w2 = Inr w3"
  shows "scratch_present w3"
proof -
  from write_author_script_frame(4)[OF was] write_commit_msg_frame(5)[OF wcm, of "''author-script''"]
  have "is_reg (entry w3 ''author-script'')" by (auto simp: is_reg_def)
  moreover from write_commit_msg_frame(4)[OF wcm]
  have "is_reg (entry w3 ''final-commit'')" by (auto simp: is_reg_def)
  ultimately show ?thesis by (simp add: scratch_present_def)
qed

lemma am_run_iter_not_parsed:
  assumes pending: "scratch_absent w" and np: "\<not> patch_parsed T state w"
    and it: "am_run_iter T state w = Inr (state1, w1)"
  shows "scratch_absent w1"
proof (cases "file_exists (msgnum state) w")
  case False
  with it pending show ?thesis by (simp add: am_run_iter_def)
next
  case True
  with it obtain r s1 v1 where pm: "parse_mail T state (msgnum state) w = Inr (r, s1, v1)"
    by (cases "parse_mail T state (msgnum state) w") (auto simp: am_run_iter_def)
  with np True have "r \<noteq> 0" by (simp add: patch_parsed_def)
  with it True pm have "w1 = v1" by (simp add: am_run_iter_def)
  with parse_mail_returns(4)[OF pm, of "''author-script''"]
    parse_mail_returns(4)[OF pm, of "''final-commit''"] pending
  show ?thesis by (simp add: scratch_absent_def)
qed

lemma am_run_iter_kept:
  assumes ex: "file_exists (msgnum state) w"
    and pm: "parse_mail T state (msgnum state) w = Inr (0, s1, v1)"
    and was: "write_author_script s1 v1 = Inr v2"
    and wcm: "write_commit_msg s1 v2 = Inr v3"
    and t: "msg s1 = Some t"
    and ra: "run_apply T s1 (print_ln (''Applying: '' @ take (linelen t) t) v3) = (r, v5)"
  shows "am_run_iter T state w =
     (if r < 0 then
        Inl (Exit 128,
             (if advice_amworkdir T
              then print_ln (''The copy of the patch that failed is found in: '' @ dir s1 @ ''/patch'')
                     (print_ln (''Patch failed at '' @ msgnum s1 @ '' '' @ take (linelen t) t) v5)
              else print_ln (''Patch failed at '' @ msgnum s1 @ '' '' @ take (linelen t) t) v5))
      else (case do_commit T s1 v5 of Inl e \<Rightarrow> Inl e | Inr w8 \<Rightarrow> Inr (s1, w8)))"
  unfolding am_run_iter_def
  using assms by (simp add: Let_def)

lemma am_run_iter_parsed:
  assumes pending: "scratch_absent w" and parsed: "patch_parsed T state w"
  shows "(\<forall>state1 w1. am_run_iter T state w = Inr (state1, w1) \<longrightarrow> scratch_present w1) \<and>
         (\<forall>e w'. am_run_iter T state w = Inl (e, w') \<longrightarrow> scratch_present w')"
proof -
  from parsed have ex: "file_exists (msgnum state) w" by (simp add: patch_parsed_def)
  from parsed obtain s1 v1 where pm: "parse_mail T state (msgnum state) w = Inr (0, s1, v1)"
    by (cases "parse_mail T state (msgnum state) w") (auto simp: patch_parsed_def)
  note fp = parse_mail_returns[OF pm]
  from pending fp(4)[of "''author-script''"] fp(4)[of "''final-commit''"]
  have nodir: "entry v1 ''author-script'' \<noteq> Some Dir" "entry v1 ''final-commit'' \<noteq> Some Dir"
    by (simp_all add: scratch_absent_def)
  from scratch_writes_succeed[OF pm nodir] obtain v2 v3 where
    was: "write_author_script s1 v1 = Inr v2" and wcm: "write_commit_msg s1 v2 = Inr v3"
    by blast
  have p3: "scratch_present v3" by (rule scratch_after_writes[OF was wcm])
  obtain t where t: "msg s1 = Some t" using write_commit_msg_frame(4)[OF wcm] by blast
  obtain r v5 where ra: "run_apply T s1 (print_ln (''Applying: '' @ take (linelen t) t) v3) = (r, v5)"
    by (cases "run_apply T s1 (print_ln (''Applying: '' @ take (linelen t) t) v3)")
  have "sdir v5 = sdir (print_ln (''Applying: '' @ take (linelen t) t) v3)"
    by (rule run_apply_frame(2)[OF ra])
  then have s5: "sdir v5 = sdir v3" by (simp only: print_ln_frame(3))
  from scratch_cong(1)[OF s5] p3 have p5: "scratch_present v5" by simp
  note it = am_run_iter_kept[OF ex pm was wcm t ra]
  show ?thesis
  proof (cases "r < 0")
    case True
    define w7 where "w7 = (if advice_amworkdir T
              then print_ln (''The copy of the patch that failed is found in: '' @ dir s1 @ ''/patch'')
                     (print_ln (''Patch failed at '' @ msgnum s1 @ '' '' @ take (linelen t) t) v5)
              else print_ln (''Patch failed at '' @ msgnum s1 @ '' '' @ take (linelen t) t) v5)"
    have "sdir w7 = sdir v5"
      unfolding w7_def by (cases "advice_amworkdir T") (simp_all add: print_ln_frame(3))
    from scratch_cong(1)[OF this] p5 have p7: "scratch_present w7" by simp
    from it True have "am_run_iter T state w = Inl (Exit 128, w7)"
      unfolding w7_def by (simp only: if_True)
    with p7 show ?thesis by simp
  next
    case False
    with it have it': "am_run_iter T state w =
        (case do_commit T s1 v5 of Inl e \<Rightarrow> Inl e | Inr w8 \<Rightarrow> Inr (s1, w8))"
      by (simp only: if_False)
    show ?thesis
    proof (cases "do_commit T s1 v5")
      case (Inl ew)
      obtain e w' where ew: "ew = (e, w')" by (cases ew)
      from scratch_cong(1)[OF do_commit_stops_frame(1)[OF Inl[unfolded ew]]] p5
      have "scratch_present w'" by simp
      moreover from it' Inl ew have "am_run_iter T state w = Inl (e, w')" by simp
      ultimately show ?thesis by simp
    next
      case (Inr w8)
      from scratch_cong(1)[OF do_commit_frame(1)[OF Inr]] p5
      have "scratch_present w8" by simp
      moreover from it' Inr have "am_run_iter T state w = Inr (s1, w8)" by simp
      ultimately show ?thesis by simp
    qed
  qed
qed

lemma parse_mail_stops:
  assumes "parse_mail T state mail w = Inl (e, w')"
  shows "\<And>n. n \<noteq> ''info'' \<Longrightarrow> n \<noteq> ''msg'' \<Longrightarrow> n \<noteq> ''patch'' \<Longrightarrow> entry w' n = entry w n"
proof -
  fix n assume n: "n \<noteq> ''info''" "n \<noteq> ''msg''" "n \<noteq> ''patch''"
  show "entry w' n = entry w n"
  proof (cases "entry w mail")
    case None
    with assms show ?thesis by (simp add: parse_mail_def)
  next
    case (Some inp)
    show ?thesis
    proof (cases "open_creat ''info'' w")
      case None
      with assms Some show ?thesis by (simp add: parse_mail_def)
    next
      case o: (Some old)
      obtain rc w3 where rm: "run_mailinfo T inp old w = (rc, w3)"
        by (cases "run_mailinfo T inp old w")
      have e3: "entry w3 n = entry w n" using run_mailinfo_frame(3)[OF rm n] .
      from assms Some o rm have "w' = w3 \<or> w' = print_ln ''Patch is empty. Was it split wrong?'' w3"
        by (auto simp: parse_mail_def Let_def is_empty_file_def
            split: io.splits prod.splits sum.splits if_splits dirnode.splits option.splits
              node.splits)
      with e3 show ?thesis by (auto simp: entry_print_ln)
    qed
  qed
qed

lemma am_run_iter_stops_not_parsed:
  assumes pending: "scratch_absent w" and np: "\<not> patch_parsed T state w"
    and it: "am_run_iter T state w = Inl (e, w')"
  shows "scratch_absent w'"
proof (cases "file_exists (msgnum state) w")
  case False
  with it show ?thesis by (simp add: am_run_iter_def)
next
  case True
  show ?thesis
  proof (cases "parse_mail T state (msgnum state) w")
    case (Inl ew)
    with it True have pm: "parse_mail T state (msgnum state) w = Inl (e, w')"
      by (simp add: am_run_iter_def)
    from parse_mail_stops[OF pm, of "''author-script''"] parse_mail_stops[OF pm, of "''final-commit''"]
      pending
    show ?thesis by (simp add: scratch_absent_def)
  next
    case (Inr x)
    obtain r s1 v1 where x: "x = (r, s1, v1)" by (cases x)
    from np True Inr x have "r \<noteq> 0" by (simp add: patch_parsed_def)
    with it True Inr x show ?thesis by (simp add: am_run_iter_def)
  qed
qed

lemma am_run_iter_no_dir:
  assumes pending: "scratch_absent w" and it: "am_run_iter T state w = Inr (state1, w1)"
  shows "entry w1 ''author-script'' \<noteq> Some Dir \<and> entry w1 ''final-commit'' \<noteq> Some Dir"
proof (cases "patch_parsed T state w")
  case True
  with am_run_iter_parsed[OF pending True] it have "scratch_present w1" by blast
  then show ?thesis by (auto simp: scratch_present_def is_reg_def)
next
  case False
  from am_run_iter_not_parsed[OF pending False it] show ?thesis
    by (simp add: scratch_absent_def)
qed

lemma am_run_loop_scratch_absent:
  "scratch_absent w \<Longrightarrow> am_run_loop T state w = Inr (state', w') \<Longrightarrow> scratch_absent w'"
proof (induction T state w rule: am_run_loop.induct)
  case (1 T state w)
  show ?case
  proof (cases "cur state \<le> last_no state")
    case False
    with "1.prems" show ?thesis by (simp add: am_run_loop_done)
  next
    case True
    from "1.prems"(2) obtain s1 w1 where it: "am_run_iter T state w = Inr (s1, w1)"
      unfolding am_run_loop_step[OF True]
      by (cases "am_run_iter T state w") auto
    from "1.prems"(2) it obtain s2 w2 where nx: "am_next s1 w1 = Inr (s2, w2)"
      unfolding am_run_loop_step[OF True]
      by (cases "am_next s1 w1") auto
    from "1.prems"(2) it nx have rest: "am_run_loop T s2 w2 = Inr (state', w')"
      unfolding am_run_loop_step[OF True] by simp
    from am_run_iter_no_dir[OF "1.prems"(1) it] am_next_returns(7,8)[OF nx]
    have "scratch_absent w2" by (simp add: scratch_absent_def)
    from "1.IH"[OF True it refl nx refl this rest] show ?thesis .
  qed
qed

text \<open>
  Claim C6. Take an iteration of the run loop that begins with neither \<^verbatim>\<open>author-script\<close>
  nor \<^verbatim>\<open>final-commit\<close> on disk, as \<^verbatim>\<open>am_next\<close> leaves the directory. Wherever the loop body
  comes to rest, by returning to the label \<^verbatim>\<open>next\<close> or by ending the run, both files
  exist if the patch has been parsed (its mail exists and \<^verbatim>\<open>parse_mail\<close> returned 0), and
  neither exists otherwise. \<^verbatim>\<open>am_next\<close> then unlinks \<^verbatim>\<open>author-script\<close>, unlinks
  \<^verbatim>\<open>final-commit\<close> and only then writes \<^verbatim>\<open>next\<close>, in this order, with the authorship fields
  and the message cleared, \<^verbatim>\<open>cur\<close> incremented and the new value in \<^verbatim>\<open>next\<close>; neither file
  exists after it, nor when the loop has run to its end.
\<close>

theorem scratch_files_invariant:
  assumes pending: "scratch_absent w"
  shows "(\<forall>state1 w1. am_run_iter T state w = Inr (state1, w1) \<longrightarrow>
            (if patch_parsed T state w then scratch_present w1 else scratch_absent w1)) \<and>
         (\<forall>e w'. am_run_iter T state w = Inl (e, w') \<longrightarrow>
            (if patch_parsed T state w then scratch_present w' else scratch_absent w')) \<and>
         (\<forall>state1 w1 state2 w2.
            am_next state1 w1 = Inr (state2, w2) \<and>
            entry w1 ''author-script'' \<noteq> Some Dir \<and> entry w1 ''final-commit'' \<noteq> Some Dir \<longrightarrow>
            scratch_absent w2 \<and>
            author_name state2 = None \<and> author_email state2 = None \<and>
            author_date state2 = None \<and> msg state2 = None \<and> msg_len state2 = 0 \<and>
            cur state2 = cur state1 + 1 \<and>
            entry w2 ''next'' = Some (Reg (printf_d (cur state2))) \<and>
            oplog w2 =
              oplog w1 @ [Unlink ''author-script'', Unlink ''final-commit'', Write ''next'']) \<and>
         (\<forall>state' w'. am_run_loop T state w = Inr (state', w') \<longrightarrow> scratch_absent w')"
proof -
  have 1: "\<forall>state1 w1. am_run_iter T state w = Inr (state1, w1) \<longrightarrow>
            (if patch_parsed T state w then scratch_present w1 else scratch_absent w1)"
    using am_run_iter_parsed[OF pending, of T state] am_run_iter_not_parsed[OF pending, of T state]
    by (cases "patch_parsed T state w") auto
  have 2: "\<forall>e w'. am_run_iter T state w = Inl (e, w') \<longrightarrow>
            (if patch_parsed T state w then scratch_present w' else scratch_absent w')"
    using am_run_iter_parsed[OF pending, of T state]
      am_run_iter_stops_not_parsed[OF pending, of T state]
    by (cases "patch_parsed T state w") auto
  have 3: "scratch_absent w2 \<and>
            author_name state2 = None \<and> author_email state2 = None \<and>
            author_date state2 = None \<and> msg state2 = None \<and> msg_len state2 = 0 \<and>
            cur state2 = cur state1 + 1 \<and>
            entry w2 ''next'' = Some (Reg (printf_d (cur state2))) \<and>
            oplog w2 =
              oplog w1 @ [Unlink ''author-script'', Unlink ''final-commit'', Write ''next'']"
    if a: "am_next state1 w1 = Inr (state2, w2) \<and>
            entry w1 ''author-script'' \<noteq> Some Dir \<and> entry w1 ''final-commit'' \<noteq> Some Dir"
    for state1 w1 state2 w2
  proof -
    from a have nx: "am_next state1 w1 = Inr (state2, w2)" by simp
    from am_next_returns[OF nx] a show ?thesis by (simp add: scratch_absent_def)
  qed
  have 4: "\<forall>state' w'. am_run_loop T state w = Inr (state', w') \<longrightarrow> scratch_absent w'"
    using am_run_loop_scratch_absent[OF pending] by blast
  from 1 2 3 4 show ?thesis by blast
qed

lemma ex_parse_keep:
  assumes "LF \<notin> set mail" and "NUL \<notin> set mail"
    and "mail \<noteq> ''Mail System Internal Data''" and "mail \<noteq> ''nopatch''"
  shows "parse_mail (ex_tools []) ex_state ''0001'' (ex_session mail) =
           Inr (0, ex_state_parsed mail, ex_parsed mail)"
proof -
  have "parse_mail (ex_tools []) ex_state ''0001'' (ex_session mail) =
     Inr (0, ex_state\<lparr>author_name := Some mail, author_email := Some ''a@u.th'',
              author_date := Some ''Mon, 1 Jan 2001 00:00:00 +0000'',
              msg := Some (stripspace (ex_tools []) (''Hello'' @ [LF, LF] @ ''Added line'' @ [LF])),
              msg_len := length (stripspace (ex_tools []) (''Hello'' @ [LF, LF] @ ''Added line'' @ [LF]))\<rparr>,
          ex_parsed mail)"
    using parse_mail_keep[of "ex_session mail" "''0001''" "Reg mail" "[]"
        "ex_tools []" 0 "ex_parsed mail" "ex_info mail" "''Hello''" mail
        "''a@u.th''" "''Mon, 1 Jan 2001 00:00:00 +0000''" "''diff '' @ mail"
        "''Added line'' @ [LF]" ex_state] assms
    by (simp add: ex_session_entries ex_run_mailinfo ex_parsed_files ex_extract_info cstr_id
        ex_state_unset)
  then show ?thesis by (simp add: ex_state_parsed_def ex_msg_def ex_tools_def)
qed

lemma ex_patch_parsed:
  assumes "LF \<notin> set mail" and "NUL \<notin> set mail"
    and "mail \<noteq> ''Mail System Internal Data''" and "mail \<noteq> ''nopatch''"
  shows "patch_parsed (ex_tools []) ex_state (ex_session mail)"
  using ex_parse_keep[OF assms]
  by (simp add: patch_parsed_def ex_msgnum file_exists_def ex_session_entries)

lemma ex_scratch_absent: "scratch_absent (ex_session mail)"
  by (simp add: scratch_absent_def entry_def ex_session_entries)

lemma ex_do_commit:
  assumes "author_name s = Some n" "author_email s = Some e" "author_date s = Some d"
    "msg s = Some t" "cstr n \<noteq> []"
  shows "\<exists>w'. do_commit (ex_tools ms) s w = Inr w'"
  using assms by (simp add: do_commit_def ex_tools_def Let_def)

lemma ex_iter_ok:
  "\<exists>s1 w1. am_run_iter (ex_tools []) ex_state (ex_session ''A U Thor'') = Inr (s1, w1) \<and>
           cur s1 = 1 \<and> last_no s1 = 1 \<and> (\<exists>m. sdir w1 = IsDir m) \<and>
           entry w1 ''next'' = Some (Reg ''1'')"
proof -
  let ?T = "ex_tools []" and ?w = "ex_session ''A U Thor''" and ?s1 = "ex_state_parsed ''A U Thor''"
    and ?v1 = "ex_parsed ''A U Thor''"
  have pm: "parse_mail ?T ex_state (msgnum ex_state) ?w = Inr (0, ?s1, ?v1)"
    unfolding ex_msgnum by (rule ex_parse_keep) simp_all
  have ex: "file_exists (msgnum ex_state) ?w"
    by (simp add: ex_msgnum file_exists_def ex_session_entries)
  have nodir: "entry ?v1 ''author-script'' \<noteq> Some Dir" "entry ?v1 ''final-commit'' \<noteq> Some Dir"
    by (simp_all add: ex_parsed_entries)
  from scratch_writes_succeed[OF pm nodir] obtain v2 v3 where
    was: "write_author_script ?s1 ?v1 = Inr v2" and wcm: "write_commit_msg ?s1 v2 = Inr v3"
    by blast
  have t: "msg ?s1 = Some ex_msg" by (simp add: ex_state_parsed_def)
  obtain r v5 where
    ra: "run_apply ?T ?s1 (print_ln (''Applying: '' @ take (linelen ex_msg) ex_msg) v3) = (r, v5)"
    by (cases "run_apply ?T ?s1 (print_ln (''Applying: '' @ take (linelen ex_msg) ex_msg) v3)")
  have e3: "entry v3 n = entry ?v1 n" if "n \<noteq> ''author-script''" "n \<noteq> ''final-commit''" for n
    using write_commit_msg_frame(5)[OF wcm that(2)] write_author_script_frame(5)[OF was that(1)]
    by simp
  have "entry (print_ln (''Applying: '' @ take (linelen ex_msg) ex_msg) v3) ''patch'' =
          Some (Reg ''diff A U Thor'')"
    using e3[of "''patch''"] by (simp add: entry_print_ln ex_parsed_files)
  with run_apply_frame(4)[OF ra] have r: "r = 0"
    by (simp add: ex_tools_def ex_git_apply_def)
  have "\<exists>w8. do_commit ?T ?s1 v5 = Inr w8"
    by (rule ex_do_commit[where n = "''A U Thor''"]) (simp_all add: ex_state_parsed_def cstr_def)
  then obtain w8 where dc: "do_commit ?T ?s1 v5 = Inr w8" by blast
  from am_run_iter_kept[OF ex pm was wcm t ra] r dc
  have it: "am_run_iter ?T ex_state ?w = Inr (?s1, w8)" by simp
  have s8: "sdir w8 = sdir v3"
    using do_commit_frame(1)[OF dc] run_apply_frame(2)[OF ra] by (simp add: print_ln_frame)
  from write_commit_msg_frame(3)[OF wcm] s8 have d: "\<exists>m. sdir w8 = IsDir m" by simp
  have "entry w8 ''next'' = Some (Reg ''1'')"
    using entry_cong_sdir[OF s8, of "''next''"] e3[of "''next''"] by (simp add: ex_parsed_entries)
  with it d show ?thesis by (simp add: ex_state_parsed_def ex_state_unset)
qed

lemma ex_iter_conflict:
  "\<exists>w'. am_run_iter (ex_tools []) ex_state (ex_session ''conflict'') = Inl (Exit 128, w')"
proof -
  have pm: "parse_mail (ex_tools []) ex_state (msgnum ex_state) (ex_session ''conflict'') =
              Inr (0, ex_state_parsed ''conflict'', ex_parsed ''conflict'')"
    unfolding ex_msgnum by (rule ex_parse_keep) simp_all
  have ex: "file_exists (msgnum ex_state) (ex_session ''conflict'')"
    by (simp add: ex_msgnum file_exists_def ex_session_entries)
  have nodir: "entry (ex_parsed ''conflict'') ''author-script'' \<noteq> Some Dir"
    "entry (ex_parsed ''conflict'') ''final-commit'' \<noteq> Some Dir"
    by (simp_all add: ex_parsed_entries)
  from scratch_writes_succeed[OF pm nodir] obtain v2 v3 where
    was: "write_author_script (ex_state_parsed ''conflict'') (ex_parsed ''conflict'') = Inr v2"
    and wcm: "write_commit_msg (ex_state_parsed ''conflict'') v2 = Inr v3"
    by blast
  have fail: "fst (git_apply (ex_tools []) (entry (ex_parsed ''conflict'') ''patch'')
                 (index (ex_parsed ''conflict''))) \<noteq> 0"
    by (simp add: ex_parsed_files ex_tools_def ex_git_apply_def)
  from am_run_iter_apply_fails[OF ex pm was wcm fail] show ?thesis by blast
qed

theorem scratch_files_invariant_witness:
  "scratch_absent (ex_session ''A U Thor'') \<and>
   (\<exists>s1 w1. am_run_iter (ex_tools []) ex_state (ex_session ''A U Thor'') = Inr (s1, w1) \<and>
      scratch_present w1 \<and>
      (\<exists>s2 w2. am_next s1 w1 = Inr (s2, w2) \<and> scratch_absent w2 \<and> author_name s2 = None \<and>
         msg s2 = None \<and> cur s2 = 2 \<and>
         oplog w2 = oplog w1 @ [Unlink ''author-script'', Unlink ''final-commit'', Write ''next''])) \<and>
   (\<exists>w'. am_run_iter (ex_tools []) ex_state (ex_session ''conflict'') = Inl (Exit 128, w') \<and>
      scratch_present w') \<and>
   (\<exists>s' w'. am_run_loop (ex_tools []) ex_state (ex_session ''A U Thor'') = Inr (s', w') \<and>
      scratch_absent w')"
proof -
  let ?T = "ex_tools []"
  note inv1 = scratch_files_invariant[OF ex_scratch_absent[of "''A U Thor''"],
      where T = ?T and state = ex_state]
  note inv2 = scratch_files_invariant[OF ex_scratch_absent[of "''conflict''"],
      where T = ?T and state = ex_state]
  have pp: "patch_parsed ?T ex_state (ex_session ''A U Thor'')"
    "patch_parsed ?T ex_state (ex_session ''conflict'')"
    by (rule ex_patch_parsed; simp)+
  from ex_iter_ok obtain s1 w1 where
    it: "am_run_iter ?T ex_state (ex_session ''A U Thor'') = Inr (s1, w1)"
    and c1: "cur s1 = 1" "last_no s1 = 1" and d1: "\<exists>m. sdir w1 = IsDir m"
    and n1: "entry w1 ''next'' = Some (Reg ''1'')" by blast
  from inv1 it pp(1) have p1: "scratch_present w1" by simp
  then have nd: "entry w1 ''author-script'' \<noteq> Some Dir" "entry w1 ''final-commit'' \<noteq> Some Dir"
    by (auto simp: scratch_present_def is_reg_def)
  from d1 obtain m1 where "sdir w1 = IsDir m1" by blast
  from am_next_succeeds[OF this, of s1] n1 c1 obtain s2 w2 where
    nx: "am_next s1 w1 = Inr (s2, w2)" by auto
  from inv1 nx nd
  have a2: "scratch_absent w2 \<and> author_name s2 = None \<and> msg s2 = None \<and> cur s2 = cur s1 + 1 \<and>
    oplog w2 = oplog w1 @ [Unlink ''author-script'', Unlink ''final-commit'', Write ''next'']"
    by blast
  from am_next_returns(3)[OF nx] c1 a2 have fin: "\<not> cur s2 \<le> last_no s2" by simp
  have lp: "am_run_loop ?T ex_state (ex_session ''A U Thor'') = Inr (s2, w2)"
    by (simp add: am_run_loop_step[of ex_state] ex_state_unset it nx am_run_loop_done[OF fin])
  from ex_iter_conflict obtain w' where
    itc: "am_run_iter ?T ex_state (ex_session ''conflict'') = Inl (Exit 128, w')" by blast
  from inv2 itc pp(2) have pc: "scratch_present w'" by simp
  from it p1 nx a2 c1 itc pc lp show ?thesis
    by (auto simp: ex_scratch_absent)
qed

section \<open>Resuming after an apply failure\<close>

lemma ex_failed_sdir:
  "sdir ex_failed =
     IsDir [''0001'' \<mapsto> Reg ''A U Thor'', ''next'' \<mapsto> Reg ''1'', ''last'' \<mapsto> Reg ''1'',
               ''info'' \<mapsto> Reg (ex_info ''A U Thor''), ''msg'' \<mapsto> Reg (''Added line'' @ [LF]),
               ''patch'' \<mapsto> Reg ''diff A U Thor'',
               ''author-script'' \<mapsto>
                 Reg (author_script ''A U Thor'' ''a@u.th'' ''Mon, 1 Jan 2001 00:00:00 +0000''),
               ''final-commit'' \<mapsto> Reg ex_msg]"
  by (simp add: ex_failed_def ex_world_def)

lemma ex_failed_in_progress: "am_in_progress state ex_failed = 1"
  by (simp add: am_in_progress_def ex_failed_sdir)

lemma ex_strtol_trim_1: "int_of_long (strtol (strbuf_trim ''1'')) = 1"
  by (simp add: strbuf_trim_def git_isspace_def strtol_def cstr_def c_isspace_def isdigit_def
      digit_val_def int_of_long_def)

lemma ex_failed_load: "am_load (am_state_init ''.git/rebase-apply'') ex_failed = Inr ex_loaded"
proof -
  let ?s2 = "(am_state_init ''.git/rebase-apply'')\<lparr>cur := 1, last_no := 1\<rparr>"
  have ras: "read_author_script ?s2 ex_failed =
      Inr (0, ?s2\<lparr>author_name := Some ''A U Thor'', author_email := Some ''a@u.th'',
                   author_date := Some ''Mon, 1 Jan 2001 00:00:00 +0000''\<rparr>)"
    by (rule read_author_script_of_script[OF ex_failed_sdir]) (simp_all add: am_state_init_def)
  have rcm: "read_commit_msg (?s2\<lparr>author_name := Some ''A U Thor'', author_email := Some ''a@u.th'',
                   author_date := Some ''Mon, 1 Jan 2001 00:00:00 +0000''\<rparr>) ex_failed =
      Inr (0, ex_loaded)"
    by (simp add: read_commit_msg_def read_state_file_reg[OF ex_failed_sdir] am_state_init_def
        ex_loaded_def int_of_size_small ex_msg_def)
  have n: "read_state_file ''next'' True ex_failed = Inr (1, ''1'')"
    "read_state_file ''last'' True ex_failed = Inr (1, ''1'')"
    by (simp_all add: read_state_file_reg[OF ex_failed_sdir] strbuf_trim_def git_isspace_def
        int_of_size_def)
  have st: "int_of_long (strtol ''1'') = 1"
    by (simp add: strtol_def cstr_def c_isspace_def isdigit_def digit_val_def int_of_long_def)
  show ?thesis
    by (simp add: am_load_def n st Let_def ras rcm)
qed

lemma ex_failed_run_mailinfo:
  "run_mailinfo (ex_tools []) (Reg ''A U Thor'') (ex_info ''A U Thor'') ex_failed = (0, ex_reparsed)"
  by (simp add: ex_reparsed_def run_mailinfo_def ex_tools_def ex_mailinfo_def Let_def)

lemma ex_reparsed_files:
  "read_file ''info'' ex_reparsed = Found (ex_info ''A U Thor'')"
  "read_file ''msg'' ex_reparsed = Found (''Added line'' @ [LF])"
  "entry ex_reparsed ''patch'' = Some (Reg ''diff A U Thor'')"
  by (simp_all add: ex_reparsed_def run_mailinfo_def ex_tools_def ex_mailinfo_def Let_def
      ex_failed_def ex_world_def put_file_def tool_write_def open_creat_def read_file_def
      entry_def pwrite_def ex_info_def)

lemma ex_failed_parse:
  "parse_mail (ex_tools []) ex_loaded ''0001'' ex_failed =
     Inl (AssertFail ''!state->author_name'', ex_reparsed)"
proof -
  have e: "entry ex_failed ''0001'' = Some (Reg ''A U Thor'')"
    and o: "open_creat ''info'' ex_failed = Some (ex_info ''A U Thor'')"
    by (simp_all add: entry_def open_creat_def ex_failed_sdir)
  have x: "extract_info (ex_info ''A U Thor'') ([], [], [], []) =
             (''Hello'', ''A U Thor'', ''a@u.th'', ''Mon, 1 Jan 2001 00:00:00 +0000'')"
    by (rule ex_extract_info) simp_all
  have c: "cstr ''A U Thor'' \<noteq> ''Mail System Internal Data''" by (simp add: cstr_def)
  have p: "''diff A U Thor'' \<noteq> []" by simp
  have rc: "\<not> (0::int) < 0" by simp
  from parse_mail_keep[OF e o ex_failed_run_mailinfo rc ex_reparsed_files(1) x c
      ex_reparsed_files(3) p ex_reparsed_files(2), of ex_loaded]
  show ?thesis by (simp add: ex_loaded_def)
qed

lemma ex_loaded_msgnum: "msgnum ex_loaded = ''0001''"
proof -
  have "printf_0d 4 1 = ''0001''" by code_simp
  then show ?thesis by (simp add: msgnum_def ex_loaded_def am_state_init_def)
qed

text \<open>
  Claim C1, at a failing input. \<^verbatim>\<open>cmd_am\<close> is called with no path on the session that an
  apply failure left, with an applier that now accepts the patch. The session is found in
  progress and loaded, and the run stops in \<^verbatim>\<open>parse_mail\<close> at the failed assertion
  \<^verbatim>\<open>!state->author_name\<close>, the field having been set by \<^verbatim>\<open>am_load\<close>: no commit is written,
  \<^verbatim>\<open>HEAD\<close> does not move and \<^verbatim>\<open>next\<close> still holds 1.
\<close>

theorem resume_hits_assertion:
  "cmd_am (ex_tools []) PATCH_FORMAT_UNKNOWN [] ex_failed =
     Inl (AssertFail ''!state->author_name'', ex_reparsed) \<and>
   fst (git_apply (ex_tools []) (entry ex_reparsed ''patch'') (index ex_reparsed)) = 0 \<and>
   head_ref ex_reparsed = None \<and> objects ex_reparsed = [] \<and>
   entry ex_reparsed ''next'' = Some (Reg ''1'')"
proof -
  have idx: "ex_failed\<lparr>index := index ex_failed\<rparr> = ex_failed" by simp
  have ex: "file_exists (msgnum ex_loaded) ex_failed"
    by (simp add: ex_loaded_msgnum file_exists_def entry_def ex_failed_sdir)
  have it: "am_run_iter (ex_tools []) ex_loaded ex_failed =
              Inl (AssertFail ''!state->author_name'', ex_reparsed)"
    using ex by (simp add: am_run_iter_def ex_loaded_msgnum ex_failed_parse)
  have le: "cur ex_loaded \<le> last_no ex_loaded" by (simp add: ex_loaded_def)
  have lp: "am_run_loop (ex_tools []) ex_loaded ex_failed =
              Inl (AssertFail ''!state->author_name'', ex_reparsed)"
    by (simp add: am_run_loop_step[OF le] it)
  have rf: "refresh_cache (ex_tools []) (index ex_failed) = Some (index ex_failed)"
    "read_index_ok (ex_tools [])"
    by (simp_all add: ex_tools_def)
  have run: "am_run (ex_tools []) ex_loaded ex_failed =
              Inl (AssertFail ''!state->author_name'', ex_reparsed)"
    by (simp add: am_run_def rf idx lp)
  have 1: "cmd_am (ex_tools []) PATCH_FORMAT_UNKNOWN [] ex_failed =
     Inl (AssertFail ''!state->author_name'', ex_reparsed)"
    by (simp add: cmd_am_def Let_def rf ex_failed_in_progress ex_failed_load run)
  from run_mailinfo_frame(1,2)[OF ex_failed_run_mailinfo]
    run_mailinfo_frame(3)[OF ex_failed_run_mailinfo, of "''next''"]
  have 2: "head_ref ex_reparsed = None" "objects ex_reparsed = []"
    "entry ex_reparsed ''next'' = Some (Reg ''1'')" "index ex_reparsed = []"
    by (simp_all add: same_repo_def ex_failed_def ex_world_def entry_def)
  have 3: "fst (git_apply (ex_tools []) (entry ex_reparsed ''patch'') (index ex_reparsed)) = 0"
    by (simp add: ex_reparsed_files ex_tools_def ex_git_apply_def)
  from 1 2 3 show ?thesis by simp
qed

end
